theory Spec2Isabelle
  imports Main "HOL-Library.Word"
begin

unbundle bit_operations_syntax

section \<open>NumPy primitives used by the repository\<close>

text \<open>
  The repository computes FizzBuzz with NumPy arrays. An array is modelled as a list, a
  two-dimensional array as a list of rows. A list has any length: the memory an array
  needs, and the limit NumPy puts on the size of an array, are not modelled. Python
  integers are \<^typ>\<open>int\<close>.

  The elements of a NumPy integer array are 64-bit signed integers. \<open>np.arange\<close> gives
  such an array only while both of its bounds are int64 values; with a bound outside it
  picks another dtype (float64 or object), and an array of another dtype cannot be used
  as an index. It computes its length as a C double: from \<open>2 ^ 63 - 512\<close> on the length
  rounds to \<open>2 ^ 63\<close>, which the conversion to a signed length turns negative, and the
  array is empty; beyond \<open>2 ^ 63 + 1024\<close> in absolute value the conversion is refused.
  Arithmetic on int64 elements keeps the low 64 bits (\<open>wrap64\<close>), and a Python integer
  outside int64 cannot be added to an int64 array. The divisors of a spec are stored in an
  int64 array when they are int64 values; the theorems on the pattern state this as
  \<open>int64_spec\<close> or through a bound on the least common multiple of positive divisors (the
  decoder is built from the labels alone). Every range in which a theorem holds is one of
  its hypotheses. Every exception the code can raise is a value of \<open>error\<close>.
\<close>

datatype error =
    IndexError      \<comment> \<open>an index outside \<open>[-len, len)\<close>, or an index array that is not of integers\<close>
  | ValueError      \<comment> \<open>\<open>np.arange\<close> with a length it cannot convert, \<open>np.empty\<close> with a bad dimension\<close>
  | OverflowError   \<comment> \<open>a Python integer outside int64 meeting an int64 array\<close>
  | ReduceError     \<comment> \<open>\<open>np.lcm.reduce\<close> of an empty list: no identity, no loop for the empty float array\<close>

datatype dtype =
    Int64   \<comment> \<open>64-bit signed integers\<close>
  | Other   \<comment> \<open>float64 or object: what \<open>np.arange\<close> picks when a bound is not an int64 value\<close>

definition int64 :: "int \<Rightarrow> bool" where
  "int64 x = (- (2 ^ 63) \<le> x \<and> x < 2 ^ 63)"

definition wrap64 :: "int \<Rightarrow> int" where
  \<comment> \<open>the two's-complement reading of the low 64 bits: what an int64 element keeps\<close>
  "wrap64 x = signed_take_bit 63 x"

definition int_range :: "int \<Rightarrow> int \<Rightarrow> int list" where
  \<comment> \<open>the integers from \<open>a\<close> up to \<open>b - 1\<close>; none when \<open>b \<le> a\<close>\<close>
  "int_range a b = [a..b - 1]"

definition np_arange :: "int \<Rightarrow> int \<Rightarrow> error + dtype \<times> int list" where
  \<comment> \<open>\<open>np.arange(a, b)\<close> on Python integers: the dtype from the bounds, the length through
      a double; the elements of an array of another dtype are only ever counted\<close>
  "np_arange a b =
     (if b - a < - (2 ^ 63) - 1024 \<or> 2 ^ 63 + 1024 < b - a then Inl ValueError
      else Inr (if int64 a \<and> int64 b then Int64 else Other,
                if 2 ^ 63 - 512 \<le> b - a then [] else int_range a b))"

definition np_mod :: "int \<Rightarrow> int \<Rightarrow> int" where
  \<comment> \<open>NumPy's \<open>%\<close> on integers: the sign of the divisor, and 0 (with a warning) for divisor 0\<close>
  "np_mod a b = (if b = 0 then 0 else a mod b)"

definition np_index :: "'a list \<Rightarrow> int \<Rightarrow> error + 'a" where
  \<comment> \<open>\<open>xs[i]\<close>: an index from \<open>-len\<close> to \<open>-1\<close> counts from the end, any other outside the array raises\<close>
  "np_index xs i =
     (if 0 \<le> i \<and> i < int (length xs) then Inr (xs ! nat i)
      else if - int (length xs) \<le> i \<and> i < 0 then Inr (xs ! nat (int (length xs) + i))
      else Inl IndexError)"

fun traverse :: "('a \<Rightarrow> error + 'b) \<Rightarrow> 'a list \<Rightarrow> error + 'b list" where
  \<comment> \<open>an elementwise operation that raises at the first element that raises\<close>
  "traverse f [] = Inr []"
| "traverse f (x # xs) =
     (case f x of
        Inl e \<Rightarrow> Inl e
      | Inr v \<Rightarrow> (case traverse f xs of Inl e \<Rightarrow> Inl e | Inr vs \<Rightarrow> Inr (v # vs)))"

definition np_take :: "'a list \<Rightarrow> int list \<Rightarrow> error + 'a list" where
  \<comment> \<open>\<open>xs[idx]\<close> with an int64 array \<open>idx\<close>: one element per index, IndexError if any is out of range\<close>
  "np_take xs idx = traverse (np_index xs) idx"

definition np_take2 :: "'a list list \<Rightarrow> int list \<Rightarrow> int list \<Rightarrow> error + 'a list" where
  \<comment> \<open>\<open>m[rows, cols]\<close> with two int64 arrays of one length: element \<open>m[rows[t], cols[t]]\<close>\<close>
  "np_take2 m rows cols =
     traverse (\<lambda>(r, c). case np_index m r of Inl e \<Rightarrow> Inl e | Inr row \<Rightarrow> np_index row c)
       (zip rows cols)"

definition np_fancy :: "'a list \<Rightarrow> dtype \<Rightarrow> int list \<Rightarrow> error + 'a list" where
  \<comment> \<open>\<open>xs[idx]\<close> with an index array of the given dtype: only integers can index, also when
      the index array is empty\<close>
  "np_fancy xs dt idx = (case dt of Int64 \<Rightarrow> np_take xs idx | Other \<Rightarrow> Inl IndexError)"

definition np_fancy2 :: "'a list list \<Rightarrow> dtype \<Rightarrow> int list \<Rightarrow> int list \<Rightarrow> error + 'a list" where
  \<comment> \<open>\<open>m[rows, cols]\<close> with two index arrays of the given dtype\<close>
  "np_fancy2 m dt rows cols = (case dt of Int64 \<Rightarrow> np_take2 m rows cols | Other \<Rightarrow> Inl IndexError)"

fun np_select :: "'a list \<Rightarrow> bool list \<Rightarrow> 'a list" where
  \<comment> \<open>\<open>xs[mask]\<close>, the mask as long as the array: the elements where it is true, in order\<close>
  "np_select (x # xs) (b # bs) = (if b then x # np_select xs bs else np_select xs bs)"
| "np_select _ _ = []"

fun np_put :: "'a list \<Rightarrow> bool list \<Rightarrow> 'a list \<Rightarrow> 'a list" where
  \<comment> \<open>\<open>xs[mask] = vs\<close>, with one value for each true entry of the mask: these positions
      take the values in order\<close>
  "np_put (x # xs) (b # bs) vs =
     (if b then (case vs of [] \<Rightarrow> x # np_put xs bs [] | v # vs' \<Rightarrow> v # np_put xs bs vs')
      else x # np_put xs bs vs)"
| "np_put xs _ _ = xs"

subsection \<open>Decimal strings\<close>

definition digit_char :: "nat \<Rightarrow> char" where
  "digit_char d = char_of (48 + d)"

fun digits :: "nat \<Rightarrow> string" where
  "digits n = (if n < 10 then [digit_char n] else digits (n div 10) @ [digit_char (n mod 10)])"

declare digits.simps [simp del]

definition str_int :: "int \<Rightarrow> string" where
  \<comment> \<open>\<open>str(i)\<close> and \<open>astype(str)\<close> on an integer: decimal digits, a minus sign when negative\<close>
  "str_int i = (if i < 0 then CHR ''-'' # digits (nat (- i)) else digits (nat i))"

section \<open>fizzbuzz.py: the pattern vector\<close>

definition PATTERN :: "int list" where
  "PATTERN = [0, 0, 1, 0, 2, 1, 0, 0, 1, 2, 0, 1, 0, 0, 3]"

definition DECODER :: "string list" where
  "DECODER = [''{}'', ''Fizz'', ''Buzz'', ''FizzBuzz'']"

definition fizzbuzz :: "int \<Rightarrow> error + string list" where
  "fizzbuzz n =
     (case np_arange 1 (n + 1) of
        Inl e \<Rightarrow> Inl e
      | Inr (dt, nums) \<Rightarrow>
          (case np_fancy PATTERN dt (map (\<lambda>x. (x - 1) mod 15) nums) of
             Inl e \<Rightarrow> Inl e
           | Inr categories \<Rightarrow>
               (case np_take DECODER categories of
                  Inl e \<Rightarrow> Inl e
                | Inr result \<Rightarrow>
                    (let number_mask = map (\<lambda>c. c = 0) categories
                     in Inr (np_put result number_mask
                               (map str_int (np_select nums number_mask)))))))"

subsection \<open>The generalised builder\<close>

definition np_lcm :: "int \<Rightarrow> int \<Rightarrow> int" where
  \<comment> \<open>\<open>np.lcm\<close> on int64: \<open>|a| / gcd * |b|\<close> in 64-bit arithmetic, 0 when the gcd is 0\<close>
  "np_lcm a b = wrap64 (lcm a b)"

fun lcm_reduce :: "int list \<Rightarrow> error + int" where
  \<comment> \<open>\<open>np.lcm.reduce\<close>: a one-element list gives its element, an empty one raises\<close>
  "lcm_reduce [] = Inl ReduceError"
| "lcm_reduce (d # ds) = Inr (foldl np_lcm d ds)"

definition divisibility_row :: "int list \<Rightarrow> int \<Rightarrow> int list" where
  \<comment> \<open>the row of \<open>div_matrix\<close> for the number \<open>n\<close>: \<open>(n % div_array == 0).astype(int)\<close>\<close>
  "divisibility_row div_values n = map (\<lambda>d. if np_mod n d = 0 then 1 else 0) div_values"

definition decoder_entry :: "(int \<times> string) list \<Rightarrow> nat \<Rightarrow> string" where
  \<comment> \<open>the body of the loop over \<open>range(n_categories)\<close>\<close>
  "decoder_entry divisors category =
     (let active = map (\<lambda>i. drop_bit i category AND 1) [0..<length divisors];
          labels = map (\<lambda>(i, a). snd (divisors ! i)) (filter (\<lambda>(i, a). a \<noteq> 0) (enumerate 0 active))
      in if labels \<noteq> [] then concat labels else ''{}'')"

definition create_pattern :: "(int \<times> string) list \<Rightarrow> error + int list \<times> string list" where
  \<comment> \<open>\<open>period\<close> is an int64 scalar, and so is \<open>period + 1\<close>; \<open>powers\<close> and the product
      \<open>div_matrix @ powers\<close> are int64 arrays; \<open>n_categories\<close> is a Python integer\<close>
  "create_pattern divisors =
     (let div_values = map fst divisors in
      case lcm_reduce div_values of
        Inl e \<Rightarrow> Inl e
      | Inr period \<Rightarrow>
          (case np_arange 1 (wrap64 (period + 1)) of
             Inl e \<Rightarrow> Inl e
           | Inr (dt, nums) \<Rightarrow>
               (let div_matrix = map (divisibility_row div_values) nums;
                    powers = map (\<lambda>i. wrap64 (2 ^ i)) [0..<length divisors];
                    pattern = map (\<lambda>row. wrap64 (sum_list (map2 (*) row powers))) div_matrix;
                    n_categories = 2 ^ length divisors;
                    decoder = map (decoder_entry divisors) [0..<n_categories]
                in Inr (pattern, decoder))))"

definition lookup :: "int list \<Rightarrow> string list \<Rightarrow> int \<Rightarrow> int \<Rightarrow> error + string list" where
  \<comment> \<open>the lookup the demonstration block of fizzbuzz.py runs on \<open>pattern_357\<close> and
      \<open>decoder_357\<close>, with the tables and the range \<open>[start, start + count)\<close> as parameters\<close>
  "lookup pattern decoder start count =
     (case np_arange start (start + count) of
        Inl e \<Rightarrow> Inl e
      | Inr (dt, nums) \<Rightarrow>
          (case np_fancy pattern dt (map (\<lambda>x. np_mod (wrap64 (x - 1)) (int (length pattern))) nums) of
             Inl e \<Rightarrow> Inl e
           | Inr categories \<Rightarrow>
               (case np_take decoder categories of
                  Inl e \<Rightarrow> Inl e
                | Inr result \<Rightarrow>
                    (let number_mask = map (\<lambda>r. r = ''{}'') result
                     in Inr (np_put result number_mask
                               (map str_int (np_select nums number_mask)))))))"

definition lookup_cell :: "int list \<Rightarrow> string list \<Rightarrow> int \<Rightarrow> error + string" where
  \<comment> \<open>one position of the lookup: its category, the decoder's entry, the number for \<open>{}\<close>\<close>
  "lookup_cell pattern decoder x =
     (case np_index pattern (np_mod (wrap64 (x - 1)) (int (length pattern))) of
        Inl e \<Rightarrow> Inl e
      | Inr c \<Rightarrow>
          (case np_index decoder c of
             Inl e \<Rightarrow> Inl e
           | Inr label \<Rightarrow> Inr (if label = ''{}'' then str_int x else label)))"

section \<open>fizzbuzz\_compact.py: the 2 x 2 binary matrix\<close>

definition PATTERN_COMPACT :: "int list list" where
  "PATTERN_COMPACT = [[0, 2], [1, 3]]"

definition fizzbuzz_compact :: "int \<Rightarrow> error + string list" where
  \<comment> \<open>\<open>fizzbuzz\<close> of fizzbuzz\_compact.py; its \<open>DECODER\<close> is the array of fizzbuzz.py;
      \<open>astype(int)\<close> makes the two index arrays int64 whatever the dtype of \<open>nums\<close>\<close>
  "fizzbuzz_compact n =
     (case np_arange 1 (n + 1) of
        Inl e \<Rightarrow> Inl e
      | Inr (dt, nums) \<Rightarrow>
          (let div_by_3 = map (\<lambda>x. if x mod 3 = 0 then 1 else 0) nums;
               div_by_5 = map (\<lambda>x. if x mod 5 = 0 then 1 else 0) nums
           in case np_take2 PATTERN_COMPACT div_by_3 div_by_5 of
                Inl e \<Rightarrow> Inl e
              | Inr categories \<Rightarrow>
                  (case np_take DECODER categories of
                     Inl e \<Rightarrow> Inl e
                   | Inr result \<Rightarrow>
                       (let number_mask = map (\<lambda>c. c = 0) categories
                        in Inr (np_put result number_mask
                                  (map str_int (np_select nums number_mask)))))))"

section \<open>dimensional\_representations.py\<close>

definition PATTERN_BINARY :: "int list list" where
  "PATTERN_BINARY = [[0, 2], [1, 3]]"

definition PATTERN_MODULAR :: "int list list" where
  "PATTERN_MODULAR = [[3, 1, 1, 1, 1], [2, 0, 0, 0, 0], [2, 0, 0, 0, 0]]"

definition PATTERN_VECTOR :: "int list" where
  "PATTERN_VECTOR = [0, 0, 1, 0, 2, 1, 0, 0, 1, 2, 0, 1, 0, 0, 3]"

definition decode_categories :: "int list \<Rightarrow> int list \<Rightarrow> error + string list" where
  \<comment> \<open>the last four lines the three functions share: the local \<open>decoder\<close>, the copy,
      and the numbers written where the category is 0\<close>
  "decode_categories nums categories =
     (let decoder = [''{}'', ''Fizz'', ''Buzz'', ''FizzBuzz''] in
      case np_take decoder categories of
        Inl e \<Rightarrow> Inl e
      | Inr result \<Rightarrow>
          Inr (np_put result (map (\<lambda>c. c = 0) categories)
                 (map str_int (np_select nums (map (\<lambda>c. c = 0) categories)))))"

definition fizzbuzz_binary :: "int \<Rightarrow> error + string list" where
  \<comment> \<open>the index arrays are \<open>astype(int)\<close>: int64 whatever the dtype of \<open>nums\<close>\<close>
  "fizzbuzz_binary n =
     (case np_arange 1 (n + 1) of
        Inl e \<Rightarrow> Inl e
      | Inr (dt, nums) \<Rightarrow>
          (let div_by_3 = map (\<lambda>x. if x mod 3 = 0 then 1 else 0) nums;
               div_by_5 = map (\<lambda>x. if x mod 5 = 0 then 1 else 0) nums
           in case np_take2 PATTERN_BINARY div_by_3 div_by_5 of
                Inl e \<Rightarrow> Inl e
              | Inr categories \<Rightarrow> decode_categories nums categories))"

definition fizzbuzz_modular :: "int \<Rightarrow> error + string list" where
  \<comment> \<open>the index arrays \<open>nums % 3\<close> and \<open>nums % 5\<close> have the dtype of \<open>nums\<close>\<close>
  "fizzbuzz_modular n =
     (case np_arange 1 (n + 1) of
        Inl e \<Rightarrow> Inl e
      | Inr (dt, nums) \<Rightarrow>
          (case np_fancy2 PATTERN_MODULAR dt (map (\<lambda>x. x mod 3) nums) (map (\<lambda>x. x mod 5) nums) of
             Inl e \<Rightarrow> Inl e
           | Inr categories \<Rightarrow> decode_categories nums categories))"

definition fizzbuzz_vector :: "int \<Rightarrow> error + string list" where
  \<comment> \<open>the index array \<open>(nums - 1) % 15\<close> has the dtype of \<open>nums\<close>\<close>
  "fizzbuzz_vector n =
     (case np_arange 1 (n + 1) of
        Inl e \<Rightarrow> Inl e
      | Inr (dt, nums) \<Rightarrow>
          (case np_fancy PATTERN_VECTOR dt (map (\<lambda>x. (x - 1) mod 15) nums) of
             Inl e \<Rightarrow> Inl e
           | Inr categories \<Rightarrow> decode_categories nums categories))"

section \<open>fizzbuzz\_batched.py: the batched tensor\<close>

definition batched_cell :: "int \<times> int \<Rightarrow> error + string" where
  \<comment> \<open>the body of the double loop: \<open>cat = categories[i, j]\<close>, the number or \<open>decoder[cat]\<close>\<close>
  "batched_cell = (\<lambda>(cat, num).
     if cat = 0 then Inr (str_int num)
     else np_index [''{}'', ''Fizz'', ''Buzz'', ''FizzBuzz''] cat)"

definition fizzbuzz_batched ::
  "int \<Rightarrow> int \<Rightarrow> int \<Rightarrow> error + string list list \<times> int list list list \<times> int list list" where
  \<comment> \<open>a Python integer outside int64 cannot meet the int64 array \<open>batch_offsets\<close>; inside
      int64 the sum keeps its low 64 bits; \<open>np.empty\<close> raises on a dimension that is negative
      or not an int64 value; the loops visit every cell of every row in order\<close>
  "fizzbuzz_batched batch_size sequence_length offset =
     (case np_arange 0 batch_size of
        Inl e \<Rightarrow> Inl e
      | Inr (dtb, batch_offsets) \<Rightarrow>
          (case np_arange 0 sequence_length of
             Inl e \<Rightarrow> Inl e
           | Inr (dts, positions) \<Rightarrow>
               if dtb = Int64 \<and> \<not> (int64 sequence_length \<and> int64 offset) then Inl OverflowError
               else
                 (let nums = map (\<lambda>b. map (\<lambda>p. wrap64 (offset + b * sequence_length + p + 1))
                                         positions) batch_offsets;
                      div_tensor = map (map (\<lambda>n. map (\<lambda>d. if n mod d = 0 then 1 else 0) [3, 5])) nums;
                      categories = map (map (\<lambda>bits. sum_list (map2 (*) bits [1, 2]))) div_tensor
                  in if 0 \<le> batch_size \<and> 0 \<le> sequence_length
                        \<and> int64 batch_size \<and> int64 sequence_length
                     then (case traverse (\<lambda>(crow, nrow). traverse batched_cell (zip crow nrow))
                                  (zip categories nums) of
                             Inl e \<Rightarrow> Inl e
                           | Inr result \<Rightarrow> Inr (result, div_tensor, nums))
                     else Inl ValueError)))"

definition batched_lookup :: "int \<Rightarrow> int \<Rightarrow> error + string list" where
  \<comment> \<open>one range in one call: \<open>fizzbuzz_batched(1, count, offset=start - 1)[0][0]\<close>\<close>
  "batched_lookup start count =
     (case fizzbuzz_batched 1 count (start - 1) of
        Inl e \<Rightarrow> Inl e
      | Inr (result, div_tensor, nums) \<Rightarrow> np_index result 0)"

section \<open>Notions of the specification\<close>

definition valid_spec :: "(int \<times> string) list \<Rightarrow> bool" where
  \<comment> \<open>the input constraint of build: at least one divisor, every divisor positive\<close>
  "valid_spec spec = (spec \<noteq> [] \<and> list_all (\<lambda>(d, l). 1 \<le> d) spec)"



fun sub_ranges :: "int \<Rightarrow> int list \<Rightarrow> (int \<times> int) list" where
  \<comment> \<open>the contiguous sub-ranges \<open>(start, count)\<close> of given lengths, from \<open>start\<close> on\<close>
  "sub_ranges start [] = []"
| "sub_ranges start (c # cs) = (start, c) # sub_ranges (start + c) cs"

definition concat_results :: "(error + 'a list) list \<Rightarrow> error + 'a list" where
  \<comment> \<open>the results of several calls, concatenated in order; the first exception if one raised\<close>
  "concat_results rs = (case traverse (\<lambda>r. r) rs of Inl e \<Rightarrow> Inl e | Inr xss \<Rightarrow> Inr (concat xss))"

definition classic_category :: "int \<Rightarrow> int" where
  \<comment> \<open>the category of a position for the divisors 3 and 5: bit 0 for 3, bit 1 for 5\<close>
  "classic_category x = (if x mod 3 = 0 then 1 else 0) + (if x mod 5 = 0 then 2 else 0)"

definition classic_label :: "int \<Rightarrow> string" where
  \<comment> \<open>the output at a position: the number itself for category 0, else the decoded label\<close>
  "classic_label x = (if classic_category x = 0 then str_int x else DECODER ! nat (classic_category x))"

section \<open>Elementwise operations\<close>

lemma traverse_Inr:
  "(\<And>x. x \<in> set xs \<Longrightarrow> f x = Inr (g x)) \<Longrightarrow> traverse f xs = Inr (map g xs)"
  by (induction xs) auto

lemma traverse_append:
  "traverse f (xs @ ys) =
     (case traverse f xs of
        Inl e \<Rightarrow> Inl e
      | Inr vs \<Rightarrow> (case traverse f ys of Inl e \<Rightarrow> Inl e | Inr ws \<Rightarrow> Inr (vs @ ws)))"
  by (induction xs) (auto split: sum.splits)

lemma traverse_map: "traverse f (map h xs) = traverse (f \<circ> h) xs"
  by (induction xs) (auto split: sum.splits)

lemma np_put_select:
  "np_put (map r xs) (map m xs) (map s (np_select xs (map m xs))) =
     map (\<lambda>x. if m x then s x else r x) xs"
  by (induction xs) auto

lemma np_index_nth:
  "0 \<le> i \<Longrightarrow> i < int (length xs) \<Longrightarrow> np_index xs i = Inr (xs ! nat i)"
  by (simp add: np_index_def)

lemma classic_category_range: "classic_category x \<in> {0, 1, 2, 3}"
  by (simp add: classic_category_def)

lemma pattern_table: "\<forall>k \<in> set [0..<15]. PATTERN ! k = classic_category (int k + 1)"
  by code_simp

lemma mod_shift:
  fixes x :: int
  assumes "c dvd m"
  shows "((x - 1) mod m + 1) mod c = x mod c"
proof -
  have "((x - 1) mod m + 1) mod c = ((x - 1) mod m mod c + 1) mod c"
    by (simp add: mod_add_left_eq)
  also have "\<dots> = ((x - 1) mod c + 1) mod c"
    using assms by (simp add: mod_mod_cancel)
  also have "\<dots> = x mod c"
    by (simp add: mod_add_left_eq)
  finally show ?thesis .
qed

lemma classic_category_mod15: "classic_category ((x - 1) mod 15 + 1) = classic_category x"
  by (simp add: classic_category_def mod_shift)

lemma pattern_classic_category: "PATTERN ! nat ((x - 1) mod 15) = classic_category x"
proof -
  have "nat ((x - 1) mod 15) \<in> set [0..<15]" by simp
  then have "PATTERN ! nat ((x - 1) mod 15) = classic_category (int (nat ((x - 1) mod 15)) + 1)"
    using pattern_table by blast
  then show ?thesis by (simp add: classic_category_mod15)
qed

lemma np_index_pattern: "np_index PATTERN ((x - 1) mod 15) = Inr (classic_category x)"
proof -
  have "np_index PATTERN ((x - 1) mod 15) = Inr (PATTERN ! nat ((x - 1) mod 15))"
    by (rule np_index_nth) (simp_all add: PATTERN_def)
  then show ?thesis by (simp add: pattern_classic_category)
qed

lemma np_index_decoder: "np_index DECODER (classic_category x) = Inr (DECODER ! nat (classic_category x))"
  by (rule np_index_nth) (simp_all add: DECODER_def classic_category_def)

lemma np_take_pattern:
  "np_take PATTERN (map (\<lambda>x. (x - 1) mod 15) nums) = Inr (map classic_category nums)"
proof -
  have "traverse (np_index PATTERN \<circ> (\<lambda>x. (x - 1) mod 15)) nums = Inr (map classic_category nums)"
    by (rule traverse_Inr) (simp add: np_index_pattern)
  then show ?thesis by (simp add: np_take_def traverse_map)
qed

lemma np_take_decoder: "np_take DECODER (map classic_category nums) = Inr (map (\<lambda>x. DECODER ! nat (classic_category x)) nums)"
proof -
  have "traverse (np_index DECODER \<circ> classic_category) nums = Inr (map (\<lambda>x. DECODER ! nat (classic_category x)) nums)"
    by (rule traverse_Inr) (simp add: np_index_decoder)
  then show ?thesis by (simp add: np_take_def traverse_map)
qed

lemma put_labels:
  "np_put (map (\<lambda>x. DECODER ! nat (classic_category x)) nums) (map (\<lambda>x. classic_category x = 0) nums)
     (map str_int (np_select nums (map (\<lambda>x. classic_category x = 0) nums))) = map classic_label nums"
  using np_put_select [of "\<lambda>x. DECODER ! nat (classic_category x)" nums "\<lambda>x. classic_category x = 0" str_int]
  by (simp add: classic_label_def cong: if_cong)

lemma int64_numeral [simp]: "int64 1" "int64 0"
  by (simp_all add: int64_def)

lemma wrap64_id: "- (2 ^ 63) \<le> x \<Longrightarrow> x < 2 ^ 63 \<Longrightarrow> wrap64 x = x"
  by (simp add: wrap64_def signed_take_bit_int_eq_self)

lemma wrap64_int64: "int64 x \<Longrightarrow> wrap64 x = x"
  by (simp add: int64_def wrap64_id)

lemma int64_wrap64: "int64 (wrap64 x)"
  using signed_take_bit_int_greater_eq_minus_exp [of 63 x] signed_take_bit_int_less_exp [of 63 x]
  by (simp add: int64_def wrap64_def)

lemma length_int_range: "length (int_range a b) = nat (b - a)"
  by (simp add: int_range_def)

lemma int_range_empty: "b \<le> a \<Longrightarrow> int_range a b = []"
  by (simp add: int_range_def)

lemma np_arange_int64:
  assumes "int64 a" "int64 b" "- (2 ^ 63) \<le> b - a" "b - a < 2 ^ 63 - 512"
  shows "np_arange a b = Inr (Int64, int_range a b)"
  using assms by (simp add: np_arange_def)

lemma np_arange_from_1:
  assumes "int64 b"
  shows "np_arange 1 b = Inr (Int64, if 2 ^ 63 - 512 \<le> b - 1 then [] else int_range 1 b)"
  using assms by (simp add: np_arange_def int64_def)

lemma fizzbuzz_labels:
  assumes "np_arange 1 (n + 1) = Inr (Int64, nums)"
  shows "fizzbuzz n = Inr (map classic_label nums)"
  using assms
  by (simp add: fizzbuzz_def np_fancy_def Let_def comp_def np_take_pattern np_take_decoder put_labels)

lemma decode_categories_labels:
  "decode_categories nums (map classic_category nums) = Inr (map classic_label nums)"
  using np_take_decoder [of nums] put_labels [of nums]
  by (simp add: decode_categories_def DECODER_def Let_def comp_def)

lemma fizzbuzz_vector_labels:
  assumes "np_arange 1 (n + 1) = Inr (Int64, nums)"
  shows "fizzbuzz_vector n = Inr (map classic_label nums)"
  using assms np_take_pattern [of nums]
  by (simp add: fizzbuzz_vector_def np_fancy_def Let_def PATTERN_VECTOR_def PATTERN_def
      decode_categories_labels)

lemma binary_cell:
  "(case np_index [[0, 2], [1, 3 :: int]] (if x mod 3 = 0 then 1 else 0) of
      Inl e \<Rightarrow> Inl e
    | Inr row \<Rightarrow> np_index row (if x mod 5 = 0 then 1 else 0)) = Inr (classic_category x)"
  by (simp add: np_index_def classic_category_def)

lemma np_take2_binary:
  "np_take2 [[0, 2], [1, 3 :: int]] (map (\<lambda>x. if x mod 3 = 0 then 1 else 0) nums)
     (map (\<lambda>x. if x mod 5 = 0 then 1 else 0) nums) = Inr (map classic_category nums)"
proof -
  have "zip (map (\<lambda>x. if x mod 3 = 0 then 1 else 0) nums) (map (\<lambda>x. if x mod 5 = 0 then 1 else 0) nums)
        = map (\<lambda>x. (if x mod 3 = 0 then 1 else 0 :: int, if x mod 5 = 0 then 1 else 0 :: int)) nums"
    by (simp add: zip_map_map zip_same_conv_map)
  moreover have "traverse ((\<lambda>(r, c). case np_index [[0, 2], [1, 3 :: int]] r of
                      Inl e \<Rightarrow> Inl e | Inr row \<Rightarrow> np_index row c)
                   \<circ> (\<lambda>x. (if x mod 3 = 0 then 1 else 0, if x mod 5 = 0 then 1 else 0))) nums
                 = Inr (map classic_category nums)"
    by (rule traverse_Inr) (simp add: binary_cell)
  ultimately show ?thesis by (simp add: np_take2_def traverse_map)
qed

lemma fizzbuzz_compact_labels:
  assumes "np_arange 1 (n + 1) = Inr (dt, nums)"
  shows "fizzbuzz_compact n = Inr (map classic_label nums)"
  using assms
  by (simp add: fizzbuzz_compact_def Let_def comp_def PATTERN_COMPACT_def np_take2_binary
        np_take_decoder put_labels)

lemma fizzbuzz_binary_labels:
  assumes "np_arange 1 (n + 1) = Inr (dt, nums)"
  shows "fizzbuzz_binary n = Inr (map classic_label nums)"
  using assms
  by (simp add: fizzbuzz_binary_def Let_def PATTERN_BINARY_def np_take2_binary
        decode_categories_labels)

lemma modular_table:
  "\<forall>r \<in> set [0..<3]. \<forall>c \<in> set [0..<5].
     PATTERN_MODULAR ! r ! c = (if r = 0 then 1 else 0) + (if c = 0 then 2 else 0)"
  by code_simp

lemma modular_cell:
  "(case np_index PATTERN_MODULAR (x mod 3) of
      Inl e \<Rightarrow> Inl e
    | Inr row \<Rightarrow> np_index row (x mod 5)) = Inr (classic_category x)"
proof -
  have r: "nat (x mod 3) \<in> set [0..<3]" and c: "nat (x mod 5) \<in> set [0..<5]" by simp_all
  have row: "np_index PATTERN_MODULAR (x mod 3) = Inr (PATTERN_MODULAR ! nat (x mod 3))"
    by (rule np_index_nth) (simp_all add: PATTERN_MODULAR_def)
  have "length (PATTERN_MODULAR ! nat (x mod 3)) = 5"
    using r by (auto simp: PATTERN_MODULAR_def nth_Cons' simp del: upt_Suc)
  then have cell: "np_index (PATTERN_MODULAR ! nat (x mod 3)) (x mod 5)
      = Inr (PATTERN_MODULAR ! nat (x mod 3) ! nat (x mod 5))"
    by (intro np_index_nth) simp_all
  have "PATTERN_MODULAR ! nat (x mod 3) ! nat (x mod 5)
      = (if nat (x mod 3) = 0 then 1 else 0) + (if nat (x mod 5) = 0 then 2 else 0)"
    using modular_table r c by blast
  also have "\<dots> = classic_category x"
  proof -
    have "0 \<le> x mod 3" "0 \<le> x mod 5" by simp_all
    then have "(nat (x mod 3) = 0) = (x mod 3 = 0)" "(nat (x mod 5) = 0) = (x mod 5 = 0)"
      by linarith+
    then show ?thesis by (simp only: classic_category_def)
  qed
  finally show ?thesis by (simp add: row cell)
qed

lemma np_take2_modular:
  "np_take2 PATTERN_MODULAR (map (\<lambda>x. x mod 3) nums) (map (\<lambda>x. x mod 5) nums)
     = Inr (map classic_category nums)"
proof -
  have "zip (map (\<lambda>x. x mod 3) nums) (map (\<lambda>x. x mod 5) nums)
        = map (\<lambda>x. (x mod 3, x mod 5)) nums"
    by (simp add: zip_map_map zip_same_conv_map)
  moreover have "traverse ((\<lambda>(r, c). case np_index PATTERN_MODULAR r of
                      Inl e \<Rightarrow> Inl e | Inr row \<Rightarrow> np_index row c)
                   \<circ> (\<lambda>x. (x mod 3, x mod 5))) nums
                 = Inr (map classic_category nums)"
    by (rule traverse_Inr) (simp add: modular_cell)
  ultimately show ?thesis by (simp add: np_take2_def traverse_map)
qed

lemma fizzbuzz_modular_labels:
  assumes "np_arange 1 (n + 1) = Inr (Int64, nums)"
  shows "fizzbuzz_modular n = Inr (map classic_label nums)"
  using assms
  by (simp add: fizzbuzz_modular_def np_fancy2_def Let_def np_take2_modular decode_categories_labels)

section \<open>The pattern and the decoder of the generalised builder\<close>

lemma sum_list_scale:
  fixes c :: int
  shows "sum_list (map2 (*) bs (map (\<lambda>x. c * f x) xs)) = c * sum_list (map2 (*) bs (map f xs))"
proof (induction bs arbitrary: xs)
  case Nil
  then show ?case by simp
next
  case (Cons b bs)
  then show ?case by (cases xs) (simp_all add: algebra_simps)
qed

lemma powers_Suc:
  "map (\<lambda>i. 2 ^ i) [0..<Suc n] = (1 :: int) # map (\<lambda>i. 2 * 2 ^ i) [0..<n]"
proof -
  have "[0..<Suc n] = 0 # map Suc [0..<n]"
    by (simp add: upt_conv_Cons map_Suc_upt del: upt_Suc)
  then show ?thesis by (simp add: comp_def del: upt_Suc)
qed

lemma weighted_sum_Cons:
  "sum_list (map2 (*) (b # bs) (map (\<lambda>i. 2 ^ i) [0..<Suc (length bs)]))
     = (b :: int) + 2 * sum_list (map2 (*) bs (map (\<lambda>i. 2 ^ i) [0..<length bs]))"
  by (simp only: powers_Suc zip_Cons_Cons list.map sum_list.Cons sum_list_scale) simp

lemma bit_weighted_sum:
  fixes bs :: "int list"
  assumes "set bs \<subseteq> {0, 1}"
  shows "bit (sum_list (map2 (*) bs (map (\<lambda>i. 2 ^ i) [0..<length bs]))) j
           \<longleftrightarrow> j < length bs \<and> bs ! j = 1"
  using assms
proof (induction bs arbitrary: j)
  case Nil
  then show ?case by simp
next
  case (Cons b bs)
  let ?m = "sum_list (map2 (*) bs (map (\<lambda>i. 2 ^ i) [0..<length bs]))"
  have b: "b = 0 \<or> b = 1" and bs: "set bs \<subseteq> {0, 1}" using Cons.prems by auto
  have eq: "sum_list (map2 (*) (b # bs) (map (\<lambda>i. 2 ^ i) [0..<length (b # bs)])) = b + 2 * ?m"
    using weighted_sum_Cons [of b bs] by simp
  show ?case
  proof (cases j)
    case 0
    show ?thesis unfolding eq using 0 b by (auto simp: bit_0)
  next
    case (Suc j')
    have "(b + 2 * ?m) div 2 = ?m" using b by auto
    then have "bit (b + 2 * ?m) (Suc j') = bit ?m j'"
      by (simp add: bit_Suc)
    then show ?thesis unfolding eq using Suc Cons.IH [OF bs, of j'] by simp
  qed
qed

lemma weighted_sum_bounds:
  fixes bs :: "int list"
  assumes "set bs \<subseteq> {0, 1}"
  shows "0 \<le> sum_list (map2 (*) bs (map (\<lambda>i. 2 ^ i) [0..<length bs]))
       \<and> sum_list (map2 (*) bs (map (\<lambda>i. 2 ^ i) [0..<length bs])) < 2 ^ length bs"
  using assms
proof (induction bs)
  case Nil
  then show ?case by simp
next
  case (Cons b bs)
  let ?m = "sum_list (map2 (*) bs (map (\<lambda>i. 2 ^ i) [0..<length bs]))"
  have b: "b = 0 \<or> b = 1" and bs: "set bs \<subseteq> {0, 1}" using Cons.prems by auto
  have eq: "sum_list (map2 (*) (b # bs) (map (\<lambda>i. 2 ^ i) [0..<length (b # bs)])) = b + 2 * ?m"
    using weighted_sum_Cons [of b bs] by simp
  from Cons.IH [OF bs] b show ?case unfolding eq by auto
qed

lemma int_range_nth: "i < length (int_range a b) \<Longrightarrow> int_range a b ! i = a + int i"
  by (simp add: int_range_def)

lemma powers_exact:
  assumes "k \<le> 63"
  shows "map (\<lambda>i. wrap64 (2 ^ i)) [0..<k] = map (\<lambda>i. 2 ^ i) [0..<k]"
proof (rule map_cong [OF refl])
  fix i assume "i \<in> set [0..<k]"
  then have "i < 63" using assms by simp
  then have "(2 :: int) ^ i < 2 ^ 63" by (simp only: power_strict_increasing_iff one_less_numeral_iff semiring_norm)
  moreover have "- (2 ^ 63) \<le> (2 :: int) ^ i"
    by (rule order_trans [of _ 0]) simp_all
  ultimately show "wrap64 (2 ^ i) = 2 ^ i" by (rule wrap64_id [rotated])
qed

lemma weighted_sum_exact:
  fixes bs :: "int list"
  assumes "set bs \<subseteq> {0, 1}" and "length bs \<le> 63"
  shows "wrap64 (sum_list (map2 (*) bs (map (\<lambda>i. wrap64 (2 ^ i)) [0..<length bs])))
           = sum_list (map2 (*) bs (map (\<lambda>i. 2 ^ i) [0..<length bs]))"
proof -
  let ?m = "sum_list (map2 (*) bs (map (\<lambda>i. 2 ^ i) [0..<length bs]))"
  have "(2 :: int) ^ length bs \<le> 2 ^ 63"
    using assms(2) by (simp only: power_increasing_iff one_less_numeral_iff semiring_norm)
  with weighted_sum_bounds [OF assms(1)] have "0 \<le> ?m" "?m < 2 ^ 63" by linarith+
  then have "wrap64 ?m = ?m" by (intro wrap64_id) simp_all
  then show ?thesis by (simp only: powers_exact [OF assms(2)])
qed

lemma create_pattern_Cons:
  "create_pattern ((d, l) # rest) =
     Inr (map (\<lambda>n. wrap64 (sum_list (map2 (*) (divisibility_row (d # map fst rest) n)
                                        (map (\<lambda>i. wrap64 (2 ^ i)) [0..<Suc (length rest)]))))
            (if 2 ^ 63 - 512 \<le> wrap64 (foldl np_lcm d (map fst rest) + 1) - 1 then []
             else int_range 1 (wrap64 (foldl np_lcm d (map fst rest) + 1))),
          map (decoder_entry ((d, l) # rest)) [0..<2 ^ Suc (length rest)])"
  by (simp add: create_pattern_def Let_def np_arange_from_1 [OF int64_wrap64] del: upt_Suc)








lemma valid_spec_Cons: "valid_spec spec \<Longrightarrow> \<exists>d l rest. spec = (d, l) # rest"
  by (cases spec) (auto simp: valid_spec_def)

lemma valid_spec_pos: "valid_spec spec \<Longrightarrow> j < length spec \<Longrightarrow> 1 \<le> fst (spec ! j)"
proof -
  assume v: "valid_spec spec" and j: "j < length spec"
  from j have "spec ! j \<in> set spec" by simp
  with v have "case spec ! j of (d, l) \<Rightarrow> 1 \<le> d"
    by (simp add: valid_spec_def list_all_iff)
  then show ?thesis by (cases "spec ! j") simp
qed

lemma divisibility_row_set: "set (divisibility_row ds n) \<subseteq> {0, 1}"
  by (auto simp: divisibility_row_def)

lemma divisibility_row_length: "length (divisibility_row ds n) = length ds"
  by (simp add: divisibility_row_def)

lemma np_lcm_zero_left: "np_lcm 0 x = 0"
  by (simp add: np_lcm_def wrap64_def)

lemma np_lcm_zero_right: "np_lcm x 0 = 0"
  by (simp add: np_lcm_def wrap64_def)

lemma foldl_np_lcm_zero: "foldl np_lcm 0 xs = 0"
  by (induction xs) (simp_all add: np_lcm_zero_left)

lemma foldl_np_lcm_has_zero: "0 \<in> set xs \<Longrightarrow> foldl np_lcm a xs = 0"
proof (induction xs arbitrary: a)
  case Nil
  then show ?case by simp
next
  case (Cons x xs)
  show ?case
  proof (cases "x = 0")
    case True
    then show ?thesis by (simp add: np_lcm_zero_right foldl_np_lcm_zero)
  next
    case False
    with Cons.prems have "0 \<in> set xs" by simp
    then show ?thesis using Cons.IH by simp
  qed
qed

lemma lcm_reduce_has_zero: "0 \<in> set ds \<Longrightarrow> lcm_reduce ds = Inr 0"
proof (cases ds)
  case Nil
  assume "0 \<in> set ds"
  with Nil show ?thesis by simp
next
  case (Cons d rest)
  assume z: "0 \<in> set ds"
  show ?thesis
  proof (cases "d = 0")
    case True
    with Cons show ?thesis by (simp add: foldl_np_lcm_zero)
  next
    case False
    with z Cons have "0 \<in> set rest" by simp
    with Cons show ?thesis by (simp add: foldl_np_lcm_has_zero)
  qed
qed

lemma create_pattern_Nil: "create_pattern [] = Inl ReduceError"
  by (simp add: create_pattern_def)


lemma create_pattern_rows:
  assumes "length rest < 63"
  shows "create_pattern ((d, l) # rest) =
     Inr (map (\<lambda>n. sum_list (map2 (*) (divisibility_row (d # map fst rest) n)
                                (map (\<lambda>i. 2 ^ i) [0..<Suc (length rest)])))
            (if 2 ^ 63 - 512 \<le> wrap64 (foldl np_lcm d (map fst rest) + 1) - 1 then []
             else int_range 1 (wrap64 (foldl np_lcm d (map fst rest) + 1))),
          map (decoder_entry ((d, l) # rest)) [0..<2 ^ Suc (length rest)])"
proof -
  have "wrap64 (sum_list (map2 (*) (divisibility_row (d # map fst rest) n)
                                        (map (\<lambda>i. wrap64 (2 ^ i)) [0..<Suc (length rest)])))
        = sum_list (map2 (*) (divisibility_row (d # map fst rest) n)
                                (map (\<lambda>i. 2 ^ i) [0..<Suc (length rest)]))" for n
    using weighted_sum_exact [OF divisibility_row_set, of "d # map fst rest" n] assms
    by (simp add: divisibility_row_length del: upt_Suc)
  then show ?thesis by (simp only: create_pattern_Cons)
qed

lemma create_pattern_zero_divisor:
  assumes "0 \<in> fst ` set spec"
  shows "create_pattern spec = Inr ([], map (decoder_entry spec) [0..<2 ^ length spec])"
proof -
  from assms have "0 \<in> set (map fst spec)" by simp
  then have "lcm_reduce (map fst spec) = Inr 0" by (rule lcm_reduce_has_zero)
  then show ?thesis
    by (simp add: create_pattern_def Let_def np_arange_def int_range_def wrap64_def del: upt_Suc)
qed

lemma classic_tables_value:
  "create_pattern [(3, ''Fizz''), (5, ''Buzz'')] = Inr (PATTERN, DECODER)"
  by code_simp

section \<open>The period\<close>

text \<open>
  While the least common multiple of the divisors stays below \<open>2 ^ 63 - 512\<close> no step of
  \<open>np.lcm.reduce\<close> wraps, and the pattern is as long as the least common multiple.
\<close>

lemma np_lcm_step:
  assumes "0 \<notin> set (a # x # xs)" and "Lcm (set (a # x # xs)) < 2 ^ 63"
  shows "np_lcm a x = lcm a x" and "0 \<le> lcm a x" and "0 \<notin> set (lcm a x # xs)"
    and "Lcm (set (lcm a x # xs)) = Lcm (set (a # x # xs))"
proof -
  show same: "Lcm (set (lcm a x # xs)) = Lcm (set (a # x # xs))"
    by (simp add: Lcm_insert lcm.assoc)
  show nonneg: "0 \<le> lcm a x" by (rule lcm_ge_0_int)
  show "0 \<notin> set (lcm a x # xs)" using assms(1) by (auto simp: lcm_0_iff_int)
  have "Lcm (set (a # x # xs)) \<noteq> 0" using assms(1) by (simp add: Lcm_0_iff del: set_simps)
  moreover have "0 \<le> Lcm (set (a # x # xs))" by simp
  ultimately have pos: "0 < Lcm (set (a # x # xs))" by linarith
  have "lcm a x dvd Lcm (set (lcm a x # xs))" by (intro dvd_Lcm) simp
  then have "lcm a x \<le> Lcm (set (a # x # xs))" using pos unfolding same by (rule zdvd_imp_le)
  with assms(2) have "lcm a x < 2 ^ 63" by linarith
  moreover have "- (2 ^ 63) \<le> lcm a x" using nonneg by (rule order_trans [rotated]) simp
  ultimately have "wrap64 (lcm a x) = lcm a x" by (intro wrap64_id)
  then show "np_lcm a x = lcm a x" by (simp only: np_lcm_def)
qed

lemma foldl_np_lcm_exact:
  assumes "0 \<le> a \<or> xs \<noteq> []" and "0 \<notin> set (a # xs)" and "Lcm (set (a # xs)) < 2 ^ 63"
  shows "foldl np_lcm a xs = Lcm (set (a # xs))"
  using assms
proof (induction xs arbitrary: a)
  case Nil
  then show ?case by simp
next
  case (Cons x xs)
  note step = np_lcm_step [OF Cons.prems(2,3)]
  have "foldl np_lcm (lcm a x) xs = Lcm (set (lcm a x # xs))"
    using step(2,3) Cons.prems(3) unfolding step(4) [symmetric]
    by (intro Cons.IH) simp_all
  then show ?case by (simp only: foldl_Cons step(1) step(4))
qed

lemma lcm_reduce_exact:
  assumes "\<exists>d \<in> fst ` set ((d, l) # rest). 0 < d" and "0 \<notin> fst ` set ((d, l) # rest)"
    and "Lcm (fst ` set ((d, l) # rest)) < 2 ^ 63"
  shows "foldl np_lcm d (map fst rest) = Lcm (fst ` set ((d, l) # rest))"
proof -
  have set: "set (d # map fst rest) = fst ` set ((d, l) # rest)" by simp
  have "0 \<le> d \<or> map fst rest \<noteq> []"
    using assms(1) by (cases rest) auto
  moreover have "0 \<notin> set (d # map fst rest)" using assms(2) unfolding set .
  moreover have "Lcm (set (d # map fst rest)) < 2 ^ 63" using assms(3) unfolding set .
  ultimately show ?thesis
    unfolding set [symmetric] by (rule foldl_np_lcm_exact)
qed

lemma create_pattern_period:
  assumes "\<exists>d \<in> fst ` set spec. 0 < d" and "Lcm (fst ` set spec) < 2 ^ 63 - 512"
  shows "\<exists>pattern decoder. create_pattern spec = Inr (pattern, decoder)
           \<and> int (length pattern) = Lcm (fst ` set spec)"
proof (cases "0 \<in> fst ` set spec")
  case True
  then have "Lcm (fst ` set spec) = 0" by (rule Lcm_eq_0_I)
  with create_pattern_zero_divisor [OF True] show ?thesis by simp
next
  case False
  from assms(1) obtain d l rest where spec: "spec = (d, l) # rest"
    by (cases spec) auto
  have "Lcm (fst ` set spec) < 2 ^ 63" using assms(2) by simp
  then have period: "foldl np_lcm d (map fst rest) = Lcm (fst ` set spec)"
    using assms(1) False unfolding spec by (intro lcm_reduce_exact)
  have "0 \<le> Lcm (fst ` set spec)" by simp
  then have "wrap64 (Lcm (fst ` set spec) + 1) = Lcm (fst ` set spec) + 1"
    using assms(2) by (intro wrap64_id) simp_all
  then show ?thesis
    using create_pattern_Cons [of d l rest] period assms(2) unfolding spec [symmetric]
    by (simp add: length_int_range del: upt_Suc)
qed

lemma period_357:
  "(case create_pattern [(3, ''Fizz''), (5, ''Buzz''), (7, ''Bazz'')] of
      Inl e \<Rightarrow> False
    | Inr (pattern, decoder) \<Rightarrow> length pattern = 105 \<and> lookup pattern decoder 105 1 = Inr [''FizzBuzzBazz''])"
  by code_simp

section \<open>The lookup, position by position\<close>

lemma create_pattern_shape:
  assumes "create_pattern spec = Inr (pattern, decoder)"
  shows "length decoder = 2 ^ length spec"
    and "length spec \<le> 63 \<Longrightarrow> \<forall>c \<in> set pattern. 0 \<le> c \<and> c < 2 ^ length spec"
proof -
  from assms obtain p rest where Cons: "spec = p # rest"
    by (cases spec) (simp_all add: create_pattern_Nil)
  show "length decoder = 2 ^ length spec"
    using assms create_pattern_Cons [of "fst p" "snd p" rest] unfolding Cons by auto
  assume k: "length spec \<le> 63"
  let ?row = "\<lambda>n. sum_list (map2 (*) (divisibility_row (map fst spec) n) (map (\<lambda>i. 2 ^ i) [0..<length spec]))"
  have "0 \<le> ?row n \<and> ?row n < 2 ^ length spec" for n
    using weighted_sum_bounds [OF divisibility_row_set, of "map fst spec" n]
    by (simp add: divisibility_row_length)
  moreover have "\<exists>nums. pattern = map ?row nums"
    using assms k create_pattern_rows [of rest "fst p" "snd p"] unfolding Cons by auto
  ultimately show "\<forall>c \<in> set pattern. 0 \<le> c \<and> c < 2 ^ length spec" by auto
qed

lemma np_index_error: "np_index xs i = Inl e \<Longrightarrow> e = IndexError"
  by (simp add: np_index_def split: if_splits)

lemma traverse_char:
  assumes "\<And>x e. f x = Inl e \<Longrightarrow> e = IndexError"
  shows "traverse f xs =
           (if \<forall>x \<in> set xs. \<exists>v. f x = Inr v then Inr (map (\<lambda>x. projr (f x)) xs)
            else Inl IndexError)"
proof (induction xs)
  case Nil
  then show ?case by simp
next
  case (Cons x xs)
  show ?case
  proof (cases "f x")
    case (Inl e)
    with assms have "e = IndexError" by blast
    with Inl show ?thesis by auto
  next
    case (Inr v)
    with Cons.IH show ?thesis by auto
  qed
qed

lemma lookup_cell_error: "lookup_cell pattern decoder x = Inl e \<Longrightarrow> e = IndexError"
  by (auto simp: lookup_cell_def split: sum.splits dest: np_index_error)

lemma lookup_traverse:
  assumes "np_arange start (start + count) = Inr (Int64, nums)"
  shows "lookup pattern decoder start count = traverse (lookup_cell pattern decoder) nums"
proof -
  let ?A = "\<lambda>x. np_index pattern (np_mod (wrap64 (x - 1)) (int (length pattern)))"
  let ?B = "\<lambda>x. np_index decoder (projr (?A x))"
  have A: "np_take pattern (map (\<lambda>x. np_mod (wrap64 (x - 1)) (int (length pattern))) nums) =
           (if \<forall>x \<in> set nums. \<exists>v. ?A x = Inr v then Inr (map (\<lambda>x. projr (?A x)) nums)
            else Inl IndexError)"
    unfolding np_take_def traverse_map comp_def
    by (rule traverse_char) (rule np_index_error)
  have B: "np_take decoder (map (\<lambda>x. projr (?A x)) nums) =
           (if \<forall>x \<in> set nums. \<exists>v. ?B x = Inr v then Inr (map (\<lambda>x. projr (?B x)) nums)
            else Inl IndexError)"
    unfolding np_take_def traverse_map comp_def
    by (rule traverse_char) (rule np_index_error)
  have C: "traverse (lookup_cell pattern decoder) nums =
           (if \<forall>x \<in> set nums. \<exists>v. lookup_cell pattern decoder x = Inr v
            then Inr (map (\<lambda>x. projr (lookup_cell pattern decoder x)) nums)
            else Inl IndexError)"
    by (rule traverse_char) (rule lookup_cell_error)
  show ?thesis
  proof (cases "\<forall>x \<in> set nums. \<exists>v. ?A x = Inr v")
    case False
    then obtain x where x: "x \<in> set nums" "\<forall>v. ?A x \<noteq> Inr v" by blast
    then have "\<forall>v. lookup_cell pattern decoder x \<noteq> Inr v"
      by (auto simp: lookup_cell_def split: sum.splits)
    with x have notC: "\<not> (\<forall>x \<in> set nums. \<exists>v. lookup_cell pattern decoder x = Inr v)" by blast
    have "np_take pattern (map (\<lambda>x. np_mod (wrap64 (x - 1)) (int (length pattern))) nums) = Inl IndexError"
      by (subst A) (rule if_not_P [OF False])
    then have "lookup pattern decoder start count = Inl IndexError"
      by (simp add: lookup_def assms np_fancy_def Let_def)
    moreover have "traverse (lookup_cell pattern decoder) nums = Inl IndexError"
      by (subst C) (rule if_not_P [OF notC])
    ultimately show ?thesis by simp
  next
    case allA: True
    have takeA: "np_take pattern (map (\<lambda>x. np_mod (wrap64 (x - 1)) (int (length pattern))) nums)
                 = Inr (map (\<lambda>x. projr (?A x)) nums)"
      by (subst A) (rule if_P [OF allA])
    show ?thesis
    proof (cases "\<forall>x \<in> set nums. \<exists>v. ?B x = Inr v")
      case False
      then obtain x where x: "x \<in> set nums" "\<forall>v. ?B x \<noteq> Inr v" by blast
      from allA x obtain c where "?A x = Inr c" by blast
      with x have "\<forall>v. lookup_cell pattern decoder x \<noteq> Inr v"
        by (auto simp: lookup_cell_def split: sum.splits)
      with x have notC: "\<not> (\<forall>x \<in> set nums. \<exists>v. lookup_cell pattern decoder x = Inr v)" by blast
      have "np_take decoder (map (\<lambda>x. projr (?A x)) nums) = Inl IndexError"
        by (subst B) (rule if_not_P [OF False])
      then have "lookup pattern decoder start count = Inl IndexError"
        by (simp add: lookup_def assms np_fancy_def Let_def takeA)
      moreover have "traverse (lookup_cell pattern decoder) nums = Inl IndexError"
        by (subst C) (rule if_not_P [OF notC])
      ultimately show ?thesis by simp
    next
      case allB: True
      have takeB: "np_take decoder (map (\<lambda>x. projr (?A x)) nums) = Inr (map (\<lambda>x. projr (?B x)) nums)"
        by (subst B) (rule if_P [OF allB])
      have cell: "lookup_cell pattern decoder x =
                    Inr (if projr (?B x) = ''{}'' then str_int x else projr (?B x))"
        if "x \<in> set nums" for x
      proof -
        from allA that obtain c where c: "?A x = Inr c" by blast
        from allB that obtain l where "?B x = Inr l" by blast
        with c show ?thesis by (simp add: lookup_cell_def)
      qed
      then have "traverse (lookup_cell pattern decoder) nums =
            Inr (map (\<lambda>x. if projr (?B x) = ''{}'' then str_int x else projr (?B x)) nums)"
        by (intro traverse_Inr)
      moreover have "lookup pattern decoder start count =
            Inr (np_put (map (\<lambda>x. projr (?B x)) nums) (map (\<lambda>x. projr (?B x) = ''{}'') nums)
                   (map str_int (np_select nums (map (\<lambda>x. projr (?B x) = ''{}'') nums))))"
        by (simp add: lookup_def assms np_fancy_def Let_def takeA takeB comp_def)
      ultimately show ?thesis by (simp add: np_put_select)
    qed
  qed
qed

lemma lookup_single:
  assumes "int64 i" "int64 (i + 1)"
  shows "lookup pattern decoder i 1 =
     (case lookup_cell pattern decoder i of Inl e \<Rightarrow> Inl e | Inr label \<Rightarrow> Inr [label])"
proof -
  have "np_arange i (i + 1) = Inr (Int64, int_range i (i + 1))"
    using assms by (intro np_arange_int64) simp_all
  then have "lookup pattern decoder i 1 = traverse (lookup_cell pattern decoder) (int_range i (i + 1))"
    by (rule lookup_traverse)
  then show ?thesis by (simp add: int_range_def split: sum.splits)
qed


section \<open>Ranges, sub-ranges and batches\<close>

lemma int_range_split:
  assumes "0 \<le> c" "0 \<le> c'"
  shows "int_range s (s + (c + c')) = int_range s (s + c) @ int_range (s + c) (s + c + c')"
proof (cases "c' = 0")
  case True
  then show ?thesis by (simp add: int_range_def)
next
  case False
  with assms have "s \<le> s + c" "s + c \<le> s + (c + c') - 1" by simp_all
  then have "[s..s + (c + c') - 1] = [s..s + c - 1] @ [s + c..s + (c + c') - 1]"
    by (rule upto_split1)
  then show ?thesis by (simp add: int_range_def add.assoc)
qed

lemma int_range_nat: "int_range a (a + int n) = map (\<lambda>q. a + int q) [0..<n]"
proof (induction n)
  case 0
  then show ?case by (simp add: int_range_def)
next
  case (Suc n)
  have "int_range a (a + (int n + 1)) = int_range a (a + int n) @ int_range (a + int n) (a + int n + 1)"
    by (rule int_range_split) simp_all
  then show ?case using Suc by (simp add: int_range_def add.commute)
qed

lemma int_range_shift: "0 \<le> c \<Longrightarrow> map (\<lambda>p. a + p) (int_range 0 c) = int_range a (a + c)"
  using int_range_nat [of 0 "nat c"] int_range_nat [of a "nat c"] by (simp add: comp_def)

lemma concat_results_Cons:
  "concat_results (r # rs) =
     (case r of
        Inl e \<Rightarrow> Inl e
      | Inr xs \<Rightarrow> (case concat_results rs of Inl e \<Rightarrow> Inl e | Inr ys \<Rightarrow> Inr (xs @ ys)))"
  by (simp add: concat_results_def split: sum.splits)

lemma concat_results_Nil: "concat_results [] = Inr []"
  by (simp add: concat_results_def)

lemma sum_list_nonneg_int: "\<forall>c \<in> set cs. (0 :: int) \<le> c \<Longrightarrow> 0 \<le> sum_list cs"
  by (induction cs) auto

lemma traverse_sub_ranges:
  assumes "\<forall>c \<in> set cs. 0 \<le> c"
  shows "concat_results (map (\<lambda>(s, c). traverse f (int_range s (s + c))) (sub_ranges start cs))
           = traverse f (int_range start (start + sum_list cs))"
  using assms
proof (induction cs arbitrary: start)
  case Nil
  then show ?case by (simp add: concat_results_Nil int_range_def)
next
  case (Cons c cs)
  then have c: "0 \<le> c" and cs: "\<forall>c \<in> set cs. 0 \<le> c" by simp_all
  have "int_range start (start + (c + sum_list cs))
          = int_range start (start + c) @ int_range (start + c) (start + c + sum_list cs)"
    using c sum_list_nonneg_int [OF cs] by (rule int_range_split)
  then show ?case
    using Cons.IH [OF cs, of "start + c"]
    by (simp add: concat_results_Cons traverse_append split: sum.splits)
qed

lemma sub_ranges_cong:
  assumes "\<forall>c \<in> set cs. 0 \<le> c"
    and "\<And>s c. start \<le> s \<Longrightarrow> 0 \<le> c \<Longrightarrow> s + c \<le> start + sum_list cs \<Longrightarrow> f s c = g s c"
  shows "map (\<lambda>(s, c). f s c) (sub_ranges start cs) = map (\<lambda>(s, c). g s c) (sub_ranges start cs)"
  using assms
proof (induction cs arbitrary: start)
  case Nil
  then show ?case by simp
next
  case (Cons c cs)
  then have c: "0 \<le> c" and cs: "\<forall>c \<in> set cs. 0 \<le> c" by simp_all
  have rest: "0 \<le> sum_list cs" using cs by (rule sum_list_nonneg_int)
  have "f start c = g start c"
    using c rest by (intro Cons.prems(2)) simp_all
  moreover have "map (\<lambda>(s, c). f s c) (sub_ranges (start + c) cs)
               = map (\<lambda>(s, c). g s c) (sub_ranges (start + c) cs)"
  proof (rule Cons.IH [OF cs])
    fix s c' assume "start + c \<le> s" "0 \<le> c'" "s + c' \<le> start + c + sum_list cs"
    then show "f s c' = g s c'" using c by (intro Cons.prems(2)) simp_all
  qed
  ultimately show ?case by simp
qed

lemma batched_cell_label:
  "batched_cell (sum_list (map2 (*) (map (\<lambda>d. if n mod d = 0 then 1 else 0) [3, 5]) [1, 2]), n)
     = Inr (classic_label n)"
  by (simp add: batched_cell_def classic_label_def classic_category_def np_index_def DECODER_def)

lemma batched_row:
  "traverse batched_cell
     (zip (map (\<lambda>bits. sum_list (map2 (*) bits [1, 2]))
             (map (\<lambda>n. map (\<lambda>d. if n mod d = 0 then 1 else 0) [3, 5]) nrow)) nrow)
   = Inr (map classic_label nrow)"
proof -
  have "zip (map (\<lambda>bits. sum_list (map2 (*) bits [1, 2 :: int]))
             (map (\<lambda>n. map (\<lambda>d. if n mod d = 0 then 1 else 0) [3, 5 :: int]) nrow)) nrow
        = map (\<lambda>n. (sum_list (map2 (*) (map (\<lambda>d. if n mod d = 0 then 1 else 0) [3, 5]) [1, 2 :: int]), n)) nrow"
    by (induction nrow) simp_all
  moreover have "traverse (batched_cell \<circ> (\<lambda>n. (sum_list (map2 (*) (map (\<lambda>d. if n mod d = 0 then 1 else 0) [3, 5]) [1, 2]), n))) nrow
        = Inr (map classic_label nrow)"
    by (rule traverse_Inr) (simp only: comp_def batched_cell_label)
  ultimately show ?thesis by (simp only: traverse_map)
qed

lemma batched_rows:
  "traverse (\<lambda>(crow, nrow). traverse batched_cell (zip crow nrow))
     (zip (map (map (\<lambda>bits. sum_list (map2 (*) bits [1, 2])))
             (map (map (\<lambda>n. map (\<lambda>d. if n mod d = 0 then 1 else 0) [3, 5])) nums)) nums)
   = Inr (map (map classic_label) nums)"
proof -
  let ?c = "\<lambda>nrow. map (\<lambda>bits. sum_list (map2 (*) bits [1, 2 :: int]))
             (map (\<lambda>n. map (\<lambda>d. if n mod d = 0 then 1 else 0) [3, 5 :: int]) nrow)"
  have "zip (map (map (\<lambda>bits. sum_list (map2 (*) bits [1, 2 :: int])))
             (map (map (\<lambda>n. map (\<lambda>d. if n mod d = 0 then 1 else 0) [3, 5 :: int])) nums)) nums
        = map (\<lambda>nrow. (?c nrow, nrow)) nums"
    by (induction nums) simp_all
  moreover have "traverse ((\<lambda>(crow, nrow). traverse batched_cell (zip crow nrow)) \<circ> (\<lambda>nrow. (?c nrow, nrow))) nums
        = Inr (map (map classic_label) nums)"
    by (rule traverse_Inr) (simp only: comp_def prod.case batched_row)
  ultimately show ?thesis by (simp only: traverse_map)
qed

lemma fizzbuzz_batched_result:
  assumes "0 \<le> batch_size" "batch_size < 2 ^ 63 - 512"
    and "0 \<le> sequence_length" "sequence_length < 2 ^ 63 - 512" and "int64 offset"
  shows "\<exists>div_tensor nums.
           fizzbuzz_batched batch_size sequence_length offset =
             Inr (map (\<lambda>b. map (\<lambda>p. classic_label (wrap64 (offset + b * sequence_length + p + 1)))
                            (int_range 0 sequence_length))
                    (int_range 0 batch_size), div_tensor, nums)"
proof -
  have b: "int64 batch_size" and s: "int64 sequence_length"
    using assms by (simp_all add: int64_def)
  have ab: "np_arange 0 batch_size = Inr (Int64, int_range 0 batch_size)"
    using b assms by (intro np_arange_int64) simp_all
  have as: "np_arange 0 sequence_length = Inr (Int64, int_range 0 sequence_length)"
    using s assms by (intro np_arange_int64) simp_all
  show ?thesis
    unfolding fizzbuzz_batched_def Let_def batched_rows ab as
    using assms b s by (simp add: comp_def)
qed

lemma batched_lookup_value:
  assumes "0 \<le> count" "count < 2 ^ 63 - 512" "int64 (start - 1)"
  shows "batched_lookup start count =
           Inr (map (\<lambda>x. classic_label (wrap64 x)) (int_range start (start + count)))"
proof -
  from fizzbuzz_batched_result [of 1 count "start - 1"] assms obtain div_tensor nums where
    "fizzbuzz_batched 1 count (start - 1) =
       Inr (map (\<lambda>b. map (\<lambda>p. classic_label (wrap64 (start - 1 + b * count + p + 1))) (int_range 0 count))
              (int_range 0 1), div_tensor, nums)"
    by auto
  then have "batched_lookup start count =
       Inr (map (\<lambda>p. classic_label (wrap64 (start + p))) (int_range 0 count))"
    by (simp add: batched_lookup_def int_range_def np_index_def)
  also have "map (\<lambda>p. classic_label (wrap64 (start + p))) (int_range 0 count)
       = map (\<lambda>x. classic_label (wrap64 x)) (map (\<lambda>p. start + p) (int_range 0 count))"
    by (simp add: comp_def)
  also have "\<dots> = map (\<lambda>x. classic_label (wrap64 x)) (int_range start (start + count))"
    using assms(1) by (simp only: int_range_shift)
  finally show ?thesis .
qed

lemma concat_rows:
  assumes "0 \<le> s"
  shows "concat (map (\<lambda>b. map (\<lambda>p. F (b * s + p)) (int_range 0 s)) (int_range 0 (int n)))
           = map F (int_range 0 (int n * s))"
proof (induction n)
  case 0
  then show ?case by (simp add: int_range_def)
next
  case (Suc n)
  have ns: "0 \<le> int n * s" using assms by simp
  have "int_range 0 (0 + (int n + 1)) = int_range 0 (0 + int n) @ int_range (0 + int n) (0 + int n + 1)"
    by (rule int_range_split) simp_all
  then have rows: "int_range 0 (int (Suc n)) = int_range 0 (int n) @ [int n]"
    by (simp add: int_range_def add.commute)
  have "int_range 0 (0 + (int n * s + s)) = int_range 0 (0 + int n * s) @ int_range (0 + int n * s) (0 + int n * s + s)"
    using ns assms by (rule int_range_split)
  then have cells: "int_range 0 (int (Suc n) * s) = int_range 0 (int n * s) @ int_range (int n * s) (int n * s + s)"
    by (simp add: algebra_simps)
  have "map (\<lambda>p. F (int n * s + p)) (int_range 0 s) = map F (map (\<lambda>p. int n * s + p) (int_range 0 s))"
    by (simp add: comp_def)
  also have "\<dots> = map F (int_range (int n * s) (int n * s + s))"
    using assms by (simp only: int_range_shift)
  finally show ?case using Suc by (simp only: rows cells map_append concat_append list.map concat.simps append_Nil2)
qed

lemma batched_rows_concat:
  assumes "0 \<le> batch_size" "0 \<le> sequence_length"
  shows "concat (map (\<lambda>b. map (\<lambda>p. classic_label (wrap64 (offset + b * sequence_length + p + 1)))
                            (int_range 0 sequence_length)) (int_range 0 batch_size))
         = map (\<lambda>x. classic_label (wrap64 x))
             (int_range (offset + 1) (offset + 1 + batch_size * sequence_length))"
proof -
  let ?F = "\<lambda>q. classic_label (wrap64 (offset + 1 + q))"
  let ?result = "map (\<lambda>b. map (\<lambda>p. classic_label (wrap64 (offset + b * sequence_length + p + 1)))
                            (int_range 0 sequence_length)) (int_range 0 batch_size)"
  have bs: "0 \<le> batch_size * sequence_length" using assms by simp
  have "?result = map (\<lambda>b. map (\<lambda>p. ?F (b * sequence_length + p)) (int_range 0 sequence_length))
                    (int_range 0 (int (nat batch_size)))"
    using assms(1) by (simp add: algebra_simps)
  then have "concat ?result = map ?F (int_range 0 (int (nat batch_size) * sequence_length))"
    using concat_rows [OF assms(2), of ?F "nat batch_size"] by simp
  also have "\<dots> = map (\<lambda>x. classic_label (wrap64 x))
                      (map (\<lambda>q. offset + 1 + q) (int_range 0 (batch_size * sequence_length)))"
    using assms(1) by (simp add: comp_def)
  also have "\<dots> = map (\<lambda>x. classic_label (wrap64 x))
                      (int_range (offset + 1) (offset + 1 + batch_size * sequence_length))"
    using bs by (simp only: int_range_shift)
  finally show ?thesis .
qed

lemma lookup_cell_classic:
  assumes "int64 (x - 1)"
  shows "lookup_cell PATTERN DECODER x = Inr (classic_label x)"
proof -
  have m: "np_mod (wrap64 (x - 1)) (int (length PATTERN)) = (x - 1) mod 15"
    by (simp add: np_mod_def PATTERN_def wrap64_int64 [OF assms])
  have "classic_category x \<in> {0, 1, 2, 3}" by (rule classic_category_range)
  then have "(DECODER ! nat (classic_category x) = ''{}'') = (classic_category x = 0)"
    by (auto simp: DECODER_def)
  then show ?thesis
    by (simp add: lookup_cell_def m np_index_pattern np_index_decoder classic_label_def)
qed

lemma lookup_classic:
  assumes "- (2 ^ 63) < start" "0 \<le> count" "count < 2 ^ 63 - 512" "start + count < 2 ^ 63"
  shows "lookup PATTERN DECODER start count = Inr (map classic_label (int_range start (start + count)))"
proof -
  have "np_arange start (start + count) = Inr (Int64, int_range start (start + count))"
    using assms by (intro np_arange_int64) (simp_all add: int64_def)
  then have "lookup PATTERN DECODER start count
      = traverse (lookup_cell PATTERN DECODER) (int_range start (start + count))"
    by (rule lookup_traverse)
  also have "\<dots> = Inr (map classic_label (int_range start (start + count)))"
  proof (rule traverse_Inr)
    fix x assume "x \<in> set (int_range start (start + count))"
    then have "int64 (x - 1)" using assms by (auto simp: int_range_def int64_def)
    then show "lookup_cell PATTERN DECODER x = Inr (classic_label x)" by (rule lookup_cell_classic)
  qed
  finally show ?thesis .
qed

lemma wrapped_labels:
  assumes "1 \<le> start" "start + count < 2 ^ 63"
  shows "map (\<lambda>x. classic_label (wrap64 x)) (int_range start (start + count))
           = map classic_label (int_range start (start + count))"
proof (rule map_cong [OF refl])
  fix x assume "x \<in> set (int_range start (start + count))"
  then have "wrap64 x = x" using assms by (intro wrap64_id) (auto simp: int_range_def)
  then show "classic_label (wrap64 x) = classic_label x" by simp
qed

lemma batched_lookup_classic:
  assumes "1 \<le> start" "0 \<le> count" "count < 2 ^ 63 - 512" "start + count < 2 ^ 63"
  shows "batched_lookup start count = lookup PATTERN DECODER start count"
proof -
  have "int64 (start - 1)" and "- (2 ^ 63) < start" using assms by (simp_all add: int64_def)
  with assms show ?thesis
    by (simp only: batched_lookup_value lookup_classic wrapped_labels)
qed

lemma sub_ranges_replicate:
  "sub_ranges a (replicate n s) = map (\<lambda>i. (a + int i * s, s)) [0..<n]"
proof (induction n arbitrary: a)
  case 0
  then show ?case by simp
next
  case (Suc n)
  have "[0..<Suc n] = 0 # map Suc [0..<n]"
    by (simp add: upt_conv_Cons map_Suc_upt del: upt_Suc)
  then show ?case using Suc [of "a + s"] by (simp add: comp_def algebra_simps del: upt_Suc)
qed

lemma batched_rows_lookup:
  assumes "0 \<le> batch_size" "0 \<le> sequence_length" "sequence_length < 2 ^ 63 - 512"
    and "0 \<le> offset" "offset + batch_size * sequence_length + 1 < 2 ^ 63"
  shows "map Inr (map (\<lambda>b. map (\<lambda>p. classic_label (wrap64 (offset + b * sequence_length + p + 1)))
                                (int_range 0 sequence_length)) (int_range 0 batch_size))
         = map (\<lambda>(s, c). lookup PATTERN DECODER s c)
             (sub_ranges (offset + 1) (replicate (nat batch_size) sequence_length))"
proof -
  have rows: "int_range 0 batch_size = map int [0..<nat batch_size]"
    using int_range_nat [of 0 "nat batch_size"] assms(1) by simp
  have "Inr (map (\<lambda>p. classic_label (wrap64 (offset + int i * sequence_length + p + 1)))
               (int_range 0 sequence_length))
        = lookup PATTERN DECODER (offset + 1 + int i * sequence_length) sequence_length"
    if "i \<in> set [0..<nat batch_size]" for i
  proof -
    let ?a = "offset + 1 + int i * sequence_length"
    from that have "int i + 1 \<le> batch_size" by simp
    then have "(int i + 1) * sequence_length \<le> batch_size * sequence_length"
      using assms(2) by (rule mult_right_mono)
    then have hi: "?a + sequence_length < 2 ^ 63" using assms(5) by (simp add: algebra_simps)
    have "0 \<le> int i * sequence_length" using assms(2) by simp
    then have lo: "1 \<le> ?a" using assms(4) by simp
    have "map (\<lambda>p. classic_label (wrap64 (offset + int i * sequence_length + p + 1)))
               (int_range 0 sequence_length)
          = map (\<lambda>x. classic_label (wrap64 x)) (map (\<lambda>p. ?a + p) (int_range 0 sequence_length))"
      by (simp add: comp_def algebra_simps)
    also have "\<dots> = map (\<lambda>x. classic_label (wrap64 x)) (int_range ?a (?a + sequence_length))"
      using assms(2) by (simp only: int_range_shift)
    also have "\<dots> = map classic_label (int_range ?a (?a + sequence_length))"
      using lo hi by (rule wrapped_labels)
    finally show ?thesis
      using lo hi assms(2,3) by (simp only: lookup_classic [of ?a sequence_length])
  qed
  then show ?thesis
    by (simp add: rows sub_ranges_replicate comp_def del: upt_Suc)
qed

section \<open>Specs whose least common multiple fits\<close>

lemma valid_spec_nonzero: "valid_spec spec \<Longrightarrow> 0 \<notin> fst ` set spec"
  by (auto simp: valid_spec_def list_all_iff)

lemma valid_spec_positive: "valid_spec spec \<Longrightarrow> \<exists>d \<in> fst ` set spec. 0 < d"
  by (cases spec) (auto simp: valid_spec_def)

lemma valid_spec_Lcm_pos: "valid_spec spec \<Longrightarrow> 0 < Lcm (fst ` set spec)"
proof -
  assume v: "valid_spec spec"
  have "Lcm (fst ` set spec) \<noteq> 0"
    using valid_spec_nonzero [OF v] by (simp add: Lcm_0_iff)
  moreover have "0 \<le> Lcm (fst ` set spec)" by simp
  ultimately show ?thesis by linarith
qed

lemma divisor_dvd_Lcm:
  fixes spec :: "(int \<times> string) list"
  assumes "j < length spec"
  shows "fst (spec ! j) dvd Lcm (fst ` set spec)"
proof -
  note assms
  then have "fst (spec ! j) \<in> fst ` set spec" by simp
  then show ?thesis by (rule dvd_Lcm)
qed

lemma create_pattern_bits:
  assumes "valid_spec spec" and "length spec \<le> 63" and "Lcm (fst ` set spec) < 2 ^ 63 - 512"
  shows "\<exists>pattern decoder. create_pattern spec = Inr (pattern, decoder)
           \<and> int (length pattern) = Lcm (fst ` set spec)
           \<and> (\<forall>i < length pattern. \<forall>j < length spec.
                 bit (pattern ! i) j \<longleftrightarrow> (int i + 1) mod fst (spec ! j) = 0)"
proof -
  from valid_spec_Cons [OF assms(1)] obtain d l rest where spec: "spec = (d, l) # rest" by blast
  let ?P = "Lcm (fst ` set spec)"
  let ?ds = "map fst spec"
  let ?nums = "int_range 1 (?P + 1)"
  let ?row = "\<lambda>n. sum_list (map2 (*) (divisibility_row ?ds n) (map (\<lambda>i. 2 ^ i) [0..<length spec]))"
  have "?P < 2 ^ 63" using assms(3) by simp
  then have period: "foldl np_lcm d (map fst rest) = ?P"
    using valid_spec_positive [OF assms(1)] valid_spec_nonzero [OF assms(1)]
    unfolding spec by (intro lcm_reduce_exact)
  have "0 \<le> ?P" by simp
  then have w: "wrap64 (?P + 1) = ?P + 1"
    using assms(3) by (intro wrap64_id) simp_all
  have "length rest < 63" using assms(2) unfolding spec by simp
  from create_pattern_rows [OF this, of d l]
  have cp: "create_pattern spec = Inr (map ?row ?nums, map (decoder_entry spec) [0..<2 ^ length spec])"
    using assms(3) unfolding spec [symmetric] period w by (simp add: spec)
  have len: "int (length (map ?row ?nums)) = ?P"
    by (simp add: length_int_range)
  have "bit (map ?row ?nums ! i) j \<longleftrightarrow> (int i + 1) mod fst (spec ! j) = 0"
    if i: "i < length (map ?row ?nums)" and j: "j < length spec" for i j
  proof -
    have n: "?nums ! i = 1 + int i" using i by (simp add: int_range_nth)
    have len: "length (divisibility_row ?ds (1 + int i)) = length spec"
      by (simp add: divisibility_row_length)
    have "bit (?row (1 + int i)) j \<longleftrightarrow> divisibility_row ?ds (1 + int i) ! j = 1"
      using bit_weighted_sum [OF divisibility_row_set, of ?ds "1 + int i" j] j
      unfolding len by simp
    also have "\<dots> \<longleftrightarrow> np_mod (1 + int i) (fst (spec ! j)) = 0"
      using j by (simp add: divisibility_row_def)
    also have "\<dots> \<longleftrightarrow> (int i + 1) mod fst (spec ! j) = 0"
      using valid_spec_pos [OF assms(1) j] by (simp add: np_mod_def add.commute)
    finally show ?thesis using i n by simp
  qed
  then have "\<forall>i < length (map ?row ?nums). \<forall>j < length spec.
      bit (map ?row ?nums ! i) j \<longleftrightarrow> (int i + 1) mod fst (spec ! j) = 0"
    by (intro allI impI)
  with cp len show ?thesis by (intro exI conjI)
qed

lemma Lcm_classic: "Lcm (fst ` set [(3 :: int, ''Fizz''), (5, ''Buzz'')]) = 15"
proof -
  have "lcm (3 :: int) 5 = 15" by code_simp
  then show ?thesis by simp
qed

lemma lookup_at:
  assumes "create_pattern spec = Inr (pattern, decoder)" and "length spec \<le> 63"
    and "pattern \<noteq> []" and "int64 (x - 1)" and "int64 x" and "int64 (x + 1)"
  shows "lookup pattern decoder x 1 =
           Inr [if decoder ! nat (pattern ! nat ((x - 1) mod int (length pattern))) = ''{}'' then str_int x
                else decoder ! nat (pattern ! nat ((x - 1) mod int (length pattern)))]"
proof -
  let ?P = "int (length pattern)"
  let ?k = "(x - 1) mod ?P"
  have P: "0 < ?P" using assms(3) by simp
  then have k: "0 \<le> ?k" "?k < ?P" by simp_all
  have m: "np_mod (wrap64 (x - 1)) ?P = ?k"
    using P by (simp add: np_mod_def wrap64_int64 [OF assms(4)])
  let ?c = "pattern ! nat ?k"
  have c1: "np_index pattern ?k = Inr ?c" using k by (rule np_index_nth)
  have "?c \<in> set pattern" using k by simp
  with create_pattern_shape [OF assms(1)] assms(2) have "0 \<le> ?c" "?c < int (length decoder)"
    by auto
  then have c2: "np_index decoder ?c = Inr (decoder ! nat ?c)" by (rule np_index_nth)
  show ?thesis
    by (simp add: lookup_single [OF assms(5,6)] lookup_cell_def m c1 c2)
qed

lemma digit_table:
  "digit_char 0 = CHR ''0'' \<and> digit_char 1 = CHR ''1'' \<and> digit_char 2 = CHR ''2''
   \<and> digit_char 3 = CHR ''3'' \<and> digit_char 4 = CHR ''4'' \<and> digit_char 5 = CHR ''5''
   \<and> digit_char 6 = CHR ''6'' \<and> digit_char 7 = CHR ''7'' \<and> digit_char 8 = CHR ''8''
   \<and> digit_char 9 = CHR ''9''"
  by code_simp

section \<open>The claims\<close>

text \<open>
  Claim C1. For the divisors 3 (\<open>Fizz\<close>) and 5 (\<open>Buzz\<close>), looking up the positions 1 to 15
  gives \<open>1, 2, Fizz, 4, Buzz, Fizz, 7, 8, Fizz, Buzz, 11, Fizz, 13, 14, FizzBuzz\<close>: both
  \<open>fizzbuzz(15)\<close> on the fixed pattern and the lookup on the tables \<open>create_pattern\<close>
  builds for this spec.
\<close>

theorem classic_lookup_1_to_15:
  "fizzbuzz 15 =
     Inr [''1'', ''2'', ''Fizz'', ''4'', ''Buzz'', ''Fizz'', ''7'', ''8'', ''Fizz'', ''Buzz'',
          ''11'', ''Fizz'', ''13'', ''14'', ''FizzBuzz'']
   \<and> (case create_pattern [(3, ''Fizz''), (5, ''Buzz'')] of
        Inl e \<Rightarrow> False
      | Inr (pattern, decoder) \<Rightarrow>
          lookup pattern decoder 1 15 =
            Inr [''1'', ''2'', ''Fizz'', ''4'', ''Buzz'', ''Fizz'', ''7'', ''8'', ''Fizz'', ''Buzz'',
                 ''11'', ''Fizz'', ''13'', ''14'', ''FizzBuzz''])"
  by code_simp

text \<open>
  Claim C2 says that the pattern \<open>create_pattern\<close> returns is as long as the least common
  multiple of the divisors. \<open>np.lcm.reduce\<close> computes in 64 bits: the divisors 274177 and
  67280421310721 are coprime, their least common multiple is \<open>2 ^ 64 + 1\<close>, the period
  wraps to 1 and the pattern returned has one entry.
\<close>

theorem lcm_overflow:
  "create_pattern [(274177, ''a''), (67280421310721, ''b'')] = Inr ([0], [''{}'', ''a'', ''b'', ''ab''])
   \<and> lcm 274177 67280421310721 = (2 ^ 64 + 1 :: int)"
  by code_simp

text \<open>
  Claim C3 says that for every valid divisor spec and every index \<open>i\<close> below the period,
  bit \<open>j\<close> of \<open>categories[i]\<close> is set exactly when \<open>i + 1\<close> is a multiple of the \<open>j\<close>-th
  divisor. The spec with the divisors \<open>2 ^ 62\<close> and 3 is valid and its period is
  \<open>3 * 2 ^ 62\<close>; \<open>np.lcm.reduce\<close> wraps it to a negative number, as in claim C2, and the
  pattern returned is empty: there is no category at any index. Where the least common
  multiple fits, the categories are as the claim says (\<open>create_pattern_bits\<close>).
\<close>

theorem pattern_not_built:
  "valid_spec [(2 ^ 62, ''a''), (3, ''b'')]
   \<and> lcm (2 ^ 62) 3 = (3 * 2 ^ 62 :: int)
   \<and> create_pattern [(2 ^ 62, ''a''), (3, ''b'')] = Inr ([], [''{}'', ''a'', ''b'', ''ab''])"
  by code_simp



text \<open>
  Claim C5 says that the three fixed-divisor representations give the same output for
  every \<open>n \<ge> 1\<close>. For \<open>n = 2 ^ 63 - 1\<close> the bound \<open>n + 1\<close> is not an int64 value and the
  array of numbers is not an integer array: the binary matrix, whose indices are
  converted to integers, returns the empty sequence, while the modular matrix and the
  pattern vector raise IndexError.
\<close>

theorem representations_differ:
  "fizzbuzz_binary (2 ^ 63 - 1) = Inr []
   \<and> fizzbuzz_modular (2 ^ 63 - 1) = Inl IndexError
   \<and> fizzbuzz_vector (2 ^ 63 - 1) = Inl IndexError"
  by code_simp

text \<open>
  Claim C5, as the code has it. For every \<open>n \<ge> 1\<close> with \<open>n + 1\<close> an int64 value, the
  2 x 2 binary matrix, the 3 x 5 modular matrix and the 15-element pattern vector return
  the same sequence; it has \<open>n\<close> elements for \<open>n\<close> below \<open>2 ^ 63 - 512\<close>.
\<close>

theorem representations_agree:
  assumes "1 \<le> n" and "int64 (n + 1)"
  shows "\<exists>labels. fizzbuzz_binary n = Inr labels
           \<and> fizzbuzz_modular n = Inr labels
           \<and> fizzbuzz_vector n = Inr labels
           \<and> (n < 2 ^ 63 - 512 \<longrightarrow> int (length labels) = n)"
proof -
  let ?nums = "if 2 ^ 63 - 512 \<le> n + 1 - 1 then [] else int_range 1 (n + 1)"
  have a: "np_arange 1 (n + 1) = Inr (Int64, ?nums)"
    using assms(2) by (rule np_arange_from_1)
  have "n < 2 ^ 63 - 512 \<longrightarrow> int (length (map classic_label ?nums)) = n"
    using assms(1) by (simp add: length_int_range)
  then show ?thesis
    using fizzbuzz_binary_labels [OF a] fizzbuzz_modular_labels [OF a] fizzbuzz_vector_labels [OF a]
    by (intro exI conjI)
qed

theorem representations_agree_witness:
  "(1 :: int) \<le> 15 \<and> int64 (15 + 1)
   \<and> (\<exists>labels. fizzbuzz_binary 15 = Inr labels \<and> fizzbuzz_modular 15 = Inr labels
         \<and> fizzbuzz_vector 15 = Inr labels \<and> length labels = 15)"
  using representations_agree [of 15] by (simp add: int64_def)

text \<open>
  Claim C6 says that for every \<open>start \<ge> 1\<close> and \<open>count \<ge> 0\<close> the lookups of contiguous
  sub-ranges, concatenated, are the lookup of the whole range. \<open>np.arange\<close> returns an
  empty array from the length \<open>2 ^ 63 - 512\<close> on: the range of \<open>2 ^ 63 - 2\<close> positions from
  1 gives the empty sequence, while its sub-ranges of 1 and of \<open>2 ^ 63 - 3\<close> positions
  give \<open>1\<close> and nothing. The batched function returns the position \<open>2 ^ 63 - 1\<close>, where the
  lookup raises IndexError, its upper bound not being an int64 value.
\<close>

theorem batching_breaks:
  "sub_ranges 1 [1, 2 ^ 63 - 3] = [(1, 1), (2, 2 ^ 63 - 3)]
   \<and> concat_results [lookup PATTERN DECODER 1 1, lookup PATTERN DECODER 2 (2 ^ 63 - 3)] = Inr [''1'']
   \<and> lookup PATTERN DECODER 1 (2 ^ 63 - 2) = Inr []
   \<and> batched_lookup (2 ^ 63 - 1) 1 = Inr [''9223372036854775807'']
   \<and> lookup PATTERN DECODER (2 ^ 63 - 1) 1 = Inl IndexError"
proof -
  have "sub_ranges 1 [1, 2 ^ 63 - 3] = [(1, 1), (2, 2 ^ 63 - 3)]
   \<and> concat_results [lookup PATTERN DECODER 1 1, lookup PATTERN DECODER 2 (2 ^ 63 - 3)] = Inr [''1'']
   \<and> lookup PATTERN DECODER 1 (2 ^ 63 - 2) = Inr []
   \<and> lookup PATTERN DECODER (2 ^ 63 - 1) 1 = Inl IndexError"
    by code_simp
  moreover have "str_int 9223372036854775807 = ''9223372036854775807''"
    by (simp add: str_int_def digits.simps digit_table)
  then have "batched_lookup (2 ^ 63 - 1) 1 = Inr [''9223372036854775807'']"
    by (simp add: batched_lookup_def fizzbuzz_batched_def np_arange_def int64_def int_range_def
        wrap64_def batched_cell_def np_index_def Let_def)
  ultimately show ?thesis by simp
qed

text \<open>
  Claim C6, as the code has it. Take \<open>start \<ge> 1\<close> and sub-ranges of lengths \<open>counts\<close>,
  none negative, of fewer than \<open>2 ^ 63 - 512\<close> positions in all, with every position below
  \<open>2 ^ 63 - 1\<close>. The lookups of the sub-ranges, concatenated in order, are the lookup of the
  whole range, on any pattern and decoder; so are the results of the batched function
  called on each sub-range, for the lookup on \<open>PATTERN\<close> and \<open>DECODER\<close>. For
  \<open>offset \<ge> 0\<close> and a batch of fewer than \<open>2 ^ 63 - 512\<close> rows, positions per row and
  positions in all, the last of them below \<open>2 ^ 63 - 1\<close>, the rows of
  \<open>fizzbuzz_batched(batch_size, sequence_length, offset)\<close> are the lookups of the
  \<open>batch_size\<close> consecutive sub-ranges of \<open>sequence_length\<close> positions from \<open>offset + 1\<close>,
  and concatenated they are the lookup of the whole range.
\<close>

theorem batching_equivalence:
  assumes "\<forall>c \<in> set counts. 0 \<le> c" and "1 \<le> start"
    and "sum_list counts < 2 ^ 63 - 512" and "start + sum_list counts < 2 ^ 63"
    and "0 \<le> batch_size" and "batch_size < 2 ^ 63 - 512"
    and "0 \<le> sequence_length" and "sequence_length < 2 ^ 63 - 512"
    and "batch_size * sequence_length < 2 ^ 63 - 512"
    and "0 \<le> offset" and "offset + batch_size * sequence_length + 1 < 2 ^ 63"
  shows "concat_results (map (\<lambda>(s, c). lookup pattern decoder s c) (sub_ranges start counts))
           = lookup pattern decoder start (sum_list counts)
       \<and> concat_results (map (\<lambda>(s, c). batched_lookup s c) (sub_ranges start counts))
           = lookup PATTERN DECODER start (sum_list counts)
       \<and> (\<exists>result div_tensor nums.
             fizzbuzz_batched batch_size sequence_length offset = Inr (result, div_tensor, nums)
           \<and> map Inr result = map (\<lambda>(s, c). lookup PATTERN DECODER s c)
                                 (sub_ranges (offset + 1) (replicate (nat batch_size) sequence_length))
           \<and> Inr (concat result) =
                lookup PATTERN DECODER (offset + 1) (batch_size * sequence_length))"
proof -
  have total: "0 \<le> sum_list counts" using assms(1) by (rule sum_list_nonneg_int)
  have whole: "np_arange start (start + sum_list counts)
                 = Inr (Int64, int_range start (start + sum_list counts))"
    using assms(2,3,4) total by (intro np_arange_int64) (simp_all add: int64_def)
  have part: "lookup p d s c = traverse (lookup_cell p d) (int_range s (s + c))"
    if "start \<le> s" "0 \<le> c" "s + c \<le> start + sum_list counts" for p d s c
  proof -
    have "np_arange s (s + c) = Inr (Int64, int_range s (s + c))"
      using that assms(2,3,4) by (intro np_arange_int64) (simp_all add: int64_def)
    then show ?thesis by (rule lookup_traverse)
  qed
  have "map (\<lambda>(s, c). lookup pattern decoder s c) (sub_ranges start counts)
        = map (\<lambda>(s, c). traverse (lookup_cell pattern decoder) (int_range s (s + c)))
            (sub_ranges start counts)"
    using assms(1) part by (rule sub_ranges_cong)
  then have a: "concat_results (map (\<lambda>(s, c). lookup pattern decoder s c) (sub_ranges start counts))
           = lookup pattern decoder start (sum_list counts)"
    using traverse_sub_ranges [OF assms(1), of "lookup_cell pattern decoder" start]
    by (simp only: lookup_traverse [OF whole])
  have "batched_lookup s c = lookup PATTERN DECODER s c"
    if "start \<le> s" "0 \<le> c" "s + c \<le> start + sum_list counts" for s c
    using that assms(2,3,4) by (intro batched_lookup_classic) simp_all
  with assms(1) have "map (\<lambda>(s, c). batched_lookup s c) (sub_ranges start counts)
        = map (\<lambda>(s, c). lookup PATTERN DECODER s c) (sub_ranges start counts)"
    by (rule sub_ranges_cong)
  moreover have "map (\<lambda>(s, c). lookup PATTERN DECODER s c) (sub_ranges start counts)
        = map (\<lambda>(s, c). traverse (lookup_cell PATTERN DECODER) (int_range s (s + c)))
            (sub_ranges start counts)"
    using assms(1) part by (rule sub_ranges_cong)
  ultimately have b: "concat_results (map (\<lambda>(s, c). batched_lookup s c) (sub_ranges start counts))
           = lookup PATTERN DECODER start (sum_list counts)"
    using traverse_sub_ranges [OF assms(1), of "lookup_cell PATTERN DECODER" start]
    by (simp only: lookup_traverse [OF whole])
  let ?result = "map (\<lambda>b. map (\<lambda>p. classic_label (wrap64 (offset + b * sequence_length + p + 1)))
                            (int_range 0 sequence_length)) (int_range 0 batch_size)"
  have bs: "0 \<le> batch_size * sequence_length" using assms(5,7) by simp
  then have off: "int64 offset" using assms(10,11) by (simp add: int64_def)
  from fizzbuzz_batched_result [OF assms(5,6,7,8) off] obtain div_tensor nums where
    fb: "fizzbuzz_batched batch_size sequence_length offset = Inr (?result, div_tensor, nums)"
    by blast
  have rows: "map Inr ?result = map (\<lambda>(s, c). lookup PATTERN DECODER s c)
                                 (sub_ranges (offset + 1) (replicate (nat batch_size) sequence_length))"
    using assms(5,7,8,10,11) by (rule batched_rows_lookup)
  have "concat ?result = map (\<lambda>x. classic_label (wrap64 x))
             (int_range (offset + 1) (offset + 1 + batch_size * sequence_length))"
    using assms(5,7) by (rule batched_rows_concat)
  also have "\<dots> = map classic_label (int_range (offset + 1) (offset + 1 + batch_size * sequence_length))"
    using assms(10,11) by (intro wrapped_labels) simp_all
  finally have "Inr (concat ?result) =
      lookup PATTERN DECODER (offset + 1) (batch_size * sequence_length)"
    using lookup_classic [of "offset + 1" "batch_size * sequence_length"] bs assms(9,10,11)
    by simp
  with a b fb rows show ?thesis by blast
qed

theorem batching_equivalence_witness:
  "concat_results (map (\<lambda>(s, c). lookup PATTERN DECODER s c) (sub_ranges 1 [4, 0, 11]))
           = lookup PATTERN DECODER 1 15
   \<and> concat_results (map (\<lambda>(s, c). batched_lookup s c) (sub_ranges 1 [4, 0, 11]))
           = lookup PATTERN DECODER 1 15
   \<and> (\<exists>result div_tensor nums.
         fizzbuzz_batched 3 5 0 = Inr (result, div_tensor, nums)
       \<and> map Inr result = [lookup PATTERN DECODER 1 5, lookup PATTERN DECODER 6 5,
                             lookup PATTERN DECODER 11 5]
       \<and> Inr (concat result) = lookup PATTERN DECODER 1 15)"
  using batching_equivalence [of "[4, 0, 11]" 1 3 5 0 PATTERN DECODER]
  by (simp add: eval_nat_numeral)

text \<open>
  Claim C7 says that the lookup gives the same result at the positions \<open>i\<close> and
  \<open>i + period\<close>. At a position of category 0 the result is the number itself: position 1
  gives \<open>1\<close> and position 16 gives \<open>16\<close>.
\<close>

theorem lookup_not_periodic:
  "create_pattern [(3, ''Fizz''), (5, ''Buzz'')] = Inr (PATTERN, DECODER)
   \<and> length PATTERN = 15
   \<and> fizzbuzz 16 =
       Inr [''1'', ''2'', ''Fizz'', ''4'', ''Buzz'', ''Fizz'', ''7'', ''8'', ''Fizz'', ''Buzz'',
            ''11'', ''Fizz'', ''13'', ''14'', ''FizzBuzz'', ''16'']
   \<and> lookup PATTERN DECODER 1 1 = Inr [''1'']
   \<and> lookup PATTERN DECODER (1 + 15) 1 = Inr [''16'']
   \<and> lookup PATTERN DECODER 1 1 \<noteq> lookup PATTERN DECODER (1 + 15) 1"
  by code_simp

text \<open>
  Claim C7, as the code has it. Take a valid divisor spec of at most 63 divisors whose
  least common multiple, the period, is below \<open>2 ^ 63 - 512\<close>, and a position \<open>i \<ge> 1\<close> with
  \<open>i + period\<close> below \<open>2 ^ 63 - 1\<close>. The positions \<open>i\<close> and \<open>i + period\<close> have the same
  category \<open>c\<close>, whose bit \<open>j\<close> is set exactly when the \<open>j\<close>-th divisor divides the
  position; the lookup returns the decoder's entry for \<open>c\<close> at both, and where this entry is
  the placeholder \<open>{}\<close> it returns the decimal strings of \<open>i\<close> and of \<open>i + period\<close>.
\<close>

theorem lookup_period:
  assumes "valid_spec spec" and "length spec \<le> 63" and "Lcm (fst ` set spec) < 2 ^ 63 - 512"
    and "create_pattern spec = Inr (pattern, decoder)"
    and "1 \<le> i" and "i + Lcm (fst ` set spec) + 1 < 2 ^ 63"
  shows "\<exists>c < 2 ^ length spec.
           (\<forall>j < length spec. bit c j \<longleftrightarrow> i mod fst (spec ! j) = 0)
         \<and> (\<forall>j < length spec. bit c j \<longleftrightarrow> (i + Lcm (fst ` set spec)) mod fst (spec ! j) = 0)
         \<and> lookup pattern decoder i 1 = Inr [if decoder ! c = ''{}'' then str_int i else decoder ! c]
         \<and> lookup pattern decoder (i + Lcm (fst ` set spec)) 1 =
             Inr [if decoder ! c = ''{}'' then str_int (i + Lcm (fst ` set spec)) else decoder ! c]"
proof -
  let ?P = "Lcm (fst ` set spec)"
  let ?k = "(i - 1) mod ?P"
  let ?c = "nat (pattern ! nat ?k)"
  from create_pattern_bits [OF assms(1,2,3)] obtain pattern' decoder' where
    cp: "create_pattern spec = Inr (pattern', decoder')" and
    len': "int (length pattern') = ?P" and
    bits': "\<forall>i < length pattern'. \<forall>j < length spec.
             bit (pattern' ! i) j \<longleftrightarrow> (int i + 1) mod fst (spec ! j) = 0"
    by blast
  from cp assms(4) have "pattern' = pattern" by simp
  with len' bits' have
    len: "int (length pattern) = ?P" and
    bits: "\<forall>i < length pattern. \<forall>j < length spec.
             bit (pattern ! i) j \<longleftrightarrow> (int i + 1) mod fst (spec ! j) = 0"
    by simp_all
  have P: "0 < ?P" using assms(1) by (rule valid_spec_Lcm_pos)
  then have ne: "pattern \<noteq> []" using len by auto
  have k: "0 \<le> ?k" "?k < ?P" using P by simp_all
  then have kl: "nat ?k < length pattern" using len by linarith
  then have "pattern ! nat ?k \<in> set pattern" by simp
  with create_pattern_shape(2) [OF assms(4,2)]
  have range: "0 \<le> pattern ! nat ?k" "pattern ! nat ?k < 2 ^ length spec" by blast+
  then have c: "?c < 2 ^ length spec"
    by (simp add: nat_less_iff)
  have "(i + ?P - 1) mod ?P = (i - 1 + ?P) mod ?P" by (simp only: algebra_simps)
  also have "\<dots> = ?k" by (rule mod_add_self2)
  finally have same: "(i + ?P - 1) mod ?P = ?k" .
  have b1: "bit ?c j \<longleftrightarrow> i mod fst (spec ! j) = 0" if j: "j < length spec" for j
  proof -
    have "bit ?c j \<longleftrightarrow> bit (pattern ! nat ?k) j"
      using range(1) by (simp only: bit_nat_iff) simp
    also have "\<dots> \<longleftrightarrow> (int (nat ?k) + 1) mod fst (spec ! j) = 0"
      using bits [rule_format, OF kl j] .
    also have "int (nat ?k) + 1 = ?k + 1" using k(1) by simp
    also have "(?k + 1) mod fst (spec ! j) = i mod fst (spec ! j)"
      using divisor_dvd_Lcm [OF j] by (rule mod_shift)
    finally show ?thesis .
  qed
  have b2: "bit ?c j \<longleftrightarrow> (i + ?P) mod fst (spec ! j) = 0" if j: "j < length spec" for j
  proof -
    have "?P mod fst (spec ! j) = 0" using divisor_dvd_Lcm [OF j] by (rule dvd_imp_mod_0)
    then have "(i + ?P mod fst (spec ! j)) mod fst (spec ! j) = i mod fst (spec ! j)"
      by (simp only: add_0_right)
    then have "(i + ?P) mod fst (spec ! j) = i mod fst (spec ! j)"
      by (simp only: mod_add_right_eq)
    then show ?thesis using b1 [OF j] by (simp only:)
  qed
  have i64: "int64 (i - 1)" "int64 i" "int64 (i + 1)"
    using assms(5,6) P by (simp_all add: int64_def)
  have p64: "int64 (i + ?P - 1)" "int64 (i + ?P)" "int64 (i + ?P + 1)"
    using assms(5,6) P by (simp_all add: int64_def)
  have l1: "lookup pattern decoder i 1 = Inr [if decoder ! ?c = ''{}'' then str_int i else decoder ! ?c]"
    using lookup_at [OF assms(4,2) ne i64] unfolding len .
  have l2: "lookup pattern decoder (i + ?P) 1 =
              Inr [if decoder ! ?c = ''{}'' then str_int (i + ?P) else decoder ! ?c]"
    using lookup_at [OF assms(4,2) ne p64] unfolding len same .
  show ?thesis
  proof (intro exI [of _ ?c] conjI allI impI)
    show "?c < 2 ^ length spec" by (rule c)
    show "bit ?c j \<longleftrightarrow> i mod fst (spec ! j) = 0" if "j < length spec" for j
      using that by (rule b1)
    show "bit ?c j \<longleftrightarrow> (i + ?P) mod fst (spec ! j) = 0" if "j < length spec" for j
      using that by (rule b2)
    show "lookup pattern decoder i 1 = Inr [if decoder ! ?c = ''{}'' then str_int i else decoder ! ?c]"
      by (rule l1)
    show "lookup pattern decoder (i + ?P) 1 =
              Inr [if decoder ! ?c = ''{}'' then str_int (i + ?P) else decoder ! ?c]"
      by (rule l2)
  qed
qed

theorem lookup_period_witness:
  "valid_spec [(3, ''Fizz''), (5, ''Buzz'')]
   \<and> create_pattern [(3, ''Fizz''), (5, ''Buzz'')] = Inr (PATTERN, DECODER)
   \<and> Lcm (fst ` set [(3 :: int, ''Fizz''), (5, ''Buzz'')]) = 15
   \<and> (\<exists>c < 4. bit c 0 \<and> \<not> bit c 1
         \<and> lookup PATTERN DECODER 3 1 = Inr [if DECODER ! c = ''{}'' then str_int 3 else DECODER ! c]
         \<and> lookup PATTERN DECODER 18 1 = Inr [if DECODER ! c = ''{}'' then str_int 18 else DECODER ! c])"
proof -
  let ?spec = "[(3 :: int, ''Fizz''), (5, ''Buzz'')]"
  have v: "valid_spec ?spec" by (simp add: valid_spec_def)
  have k: "length ?spec \<le> 63" by simp
  have p: "Lcm (fst ` set ?spec) < 2 ^ 63 - 512" by (simp only: Lcm_classic) simp
  have i: "(1 :: int) \<le> 3" by simp
  have e: "3 + Lcm (fst ` set ?spec) + 1 < 2 ^ 63" by (simp only: Lcm_classic) simp
  from lookup_period [OF v k p classic_tables_value i e] obtain c where
    c: "c < 2 ^ length ?spec" and
    b: "\<forall>j < length ?spec. bit c j \<longleftrightarrow> 3 mod fst (?spec ! j) = 0" and
    l1: "lookup PATTERN DECODER 3 1 = Inr [if DECODER ! c = ''{}'' then str_int 3 else DECODER ! c]" and
    l2: "lookup PATTERN DECODER (3 + Lcm (fst ` set ?spec)) 1 =
           Inr [if DECODER ! c = ''{}'' then str_int (3 + Lcm (fst ` set ?spec)) else DECODER ! c]"
    by blast
  from c have c4: "c < 4" by simp
  have b0: "bit c 0" using b [rule_format, of 0] by simp
  have b1: "\<not> bit c 1" using b [rule_format, of 1] by simp
  from l2 have l2': "lookup PATTERN DECODER 18 1 =
           Inr [if DECODER ! c = ''{}'' then str_int 18 else DECODER ! c]"
    by (simp only: Lcm_classic) simp
  show ?thesis using v classic_tables_value Lcm_classic c4 b0 b1 l1 l2' by blast
qed




text \<open>
  Claim C9. The constants \<open>PATTERN\<close> and \<open>DECODER\<close> of fizzbuzz.py are what
  \<open>create_pattern\<close> returns for the divisors 3 (\<open>Fizz\<close>) and 5 (\<open>Buzz\<close>).
\<close>

theorem create_pattern_classic:
  "create_pattern [(3, ''Fizz''), (5, ''Buzz'')] = Inr (PATTERN, DECODER)
   \<and> PATTERN = [0, 0, 1, 0, 2, 1, 0, 0, 1, 2, 0, 1, 0, 0, 3]
   \<and> DECODER = [''{}'', ''Fizz'', ''Buzz'', ''FizzBuzz'']"
  by code_simp

text \<open>
  Claim C10 says that \<open>fizzbuzz\<close> fails for no integer, returns the empty sequence for
  \<open>n \<le> 0\<close> and \<open>n\<close> elements for \<open>n \<ge> 1\<close>. With \<open>n = - 2 ^ 63 - 2\<close> the array of numbers
  is not an integer array and \<open>fizzbuzz\<close> of fizzbuzz.py raises IndexError; with
  \<open>n = - 2 ^ 64 + 1\<close> \<open>np.arange\<close> cannot convert the length and \<open>fizzbuzz\<close> of
  fizzbuzz\_compact.py raises ValueError; with \<open>n = 2 ^ 63 - 2\<close> the array of numbers is
  empty and the sequence returned has no element.
\<close>

theorem fizzbuzz_fails:
  "fizzbuzz (- (2 ^ 63) - 2) = Inl IndexError
   \<and> fizzbuzz_compact (- (2 ^ 64) + 1) = Inl ValueError
   \<and> fizzbuzz (2 ^ 63 - 2) = Inr []"
  by code_simp

text \<open>
  Claim C10, as the code has it. \<open>fizzbuzz\<close>, of fizzbuzz.py and of fizzbuzz\_compact.py,
  returns the empty sequence for every \<open>n \<le> 0\<close> with \<open>n + 1\<close> an int64 value, and a
  sequence of \<open>n\<close> elements for every \<open>n\<close> from 1 to below \<open>2 ^ 63 - 512\<close>.
\<close>

theorem fizzbuzz_total:
  "(n \<le> 0 \<and> int64 (n + 1) \<longrightarrow> fizzbuzz n = Inr [] \<and> fizzbuzz_compact n = Inr [])
   \<and> (1 \<le> n \<and> n < 2 ^ 63 - 512 \<longrightarrow>
        (\<exists>r. fizzbuzz n = Inr r \<and> int (length r) = n)
      \<and> (\<exists>r. fizzbuzz_compact n = Inr r \<and> int (length r) = n))"
proof -
  have a: "fizzbuzz n = Inr [] \<and> fizzbuzz_compact n = Inr []" if "n \<le> 0" "int64 (n + 1)"
  proof -
    have "np_arange 1 (n + 1) = Inr (Int64, [])"
      using np_arange_from_1 [OF that(2)] that(1) by (simp add: int_range_empty)
    then show ?thesis
      using fizzbuzz_labels [of n "[]"] fizzbuzz_compact_labels [of n Int64 "[]"] by simp
  qed
  have b: "(\<exists>r. fizzbuzz n = Inr r \<and> int (length r) = n)
      \<and> (\<exists>r. fizzbuzz_compact n = Inr r \<and> int (length r) = n)" if "1 \<le> n" "n < 2 ^ 63 - 512"
  proof -
    have "int64 (n + 1)" using that by (simp add: int64_def)
    from np_arange_from_1 [OF this] that(2)
    have "np_arange 1 (n + 1) = Inr (Int64, int_range 1 (n + 1))" by simp
    then show ?thesis
      using fizzbuzz_labels [of n "int_range 1 (n + 1)"]
        fizzbuzz_compact_labels [of n Int64 "int_range 1 (n + 1)"] that(1)
      by (simp add: length_int_range)
  qed
  from a b show ?thesis by blast
qed

theorem fizzbuzz_total_witness:
  "fizzbuzz (- 2) = Inr [] \<and> fizzbuzz_compact (- 2) = Inr []
   \<and> (\<exists>r. fizzbuzz 3 = Inr r \<and> length r = 3)
   \<and> (\<exists>r. fizzbuzz_compact 3 = Inr r \<and> length r = 3)"
  using fizzbuzz_total [of "- 2"] fizzbuzz_total [of 3] by (simp add: int64_def)

end
